theory Spec2Isabelle
  imports Complex_Main
begin

section \<open>The CLEAN deconvolution kernels of \<^verbatim>\<open>src/_deconv/deconv.cpp\<close>\<close>

text \<open>
  The C++ template \<^verbatim>\<open>Clean<T>\<close> is instantiated at \<^verbatim>\<open>float\<close>, \<^verbatim>\<open>double\<close> and
  \<^verbatim>\<open>long double\<close>. A value of type \<^verbatim>\<open>T\<close> is modelled by the real number it denotes, and
  the element type itself by its rounding function \<open>rnd\<close>: every arithmetic operation
  of the source (\<^verbatim>\<open>+ - * /\<close>, \<^verbatim>\<open>sqrt\<close>, the casts \<^verbatim>\<open>(T) gain\<close> and \<^verbatim>\<open>int\<close> to \<^verbatim>\<open>T\<close>)
  is the exact operation followed by \<open>rnd\<close>, as IEEE 754 prescribes for the basic
  operations. Negation, the literals \<^verbatim>\<open>0\<close>, \<^verbatim>\<open>-1\<close>, \<^verbatim>\<open>1\<close> and comparisons are exact.
  Exact arithmetic is \<open>rnd = (\<lambda>x. x)\<close>; \<open>float32\<close> and \<open>float64\<close> below are the
  binary formats. Infinities, NaN and signed zero are outside the model, so inputs
  that make the source divide by zero (an all-zero kernel, an empty array) are
  excluded by hypotheses where a result depends on them.

  Arrays are lists (1-D) and lists of rows (2-D); a complex element is the pair of its
  real and imaginary component, as \<^verbatim>\<open>CIND1R\<close>/\<^verbatim>\<open>CIND1I\<close> address them. The source keeps
  extents and indices in \<^verbatim>\<open>int\<close>; here they are natural numbers, which is what the source
  computes as long as no \<^verbatim>\<open>int\<close> expression overflows: the index sums \<^verbatim>\<open>n + argmax\<close>
  stay below \<open>2\<^sup>3\<^sup>1\<close> when no extent exceeds \<open>2\<^sup>3\<^sup>0\<close> (the theorem on the wrapped index
  assumes this and proves the bound), and the product \<^verbatim>\<open>dim1 * dim2\<close> when the array has
  fewer than \<open>2\<^sup>3\<^sup>1\<close> elements. The \<^verbatim>\<open>verb\<close> flag only prints and is left out.
\<close>

subsection \<open>The iteration loop shared by the four kernels\<close>

text \<open>
  Every kernel has the shape
  \<^verbatim>\<open>for (int i=0; i < maxiter; i++) { ... return -i; ... return i; ... } return maxiter;\<close>.
  A loop body either returns a value or falls through to the next iteration.
\<close>

datatype 's outcome = Return int 's | Next 's

function clean_loop :: "(nat \<Rightarrow> 's \<Rightarrow> 's outcome) \<Rightarrow> int \<Rightarrow> nat \<Rightarrow> 's \<Rightarrow> int \<times> 's" where
  "clean_loop body maxiter i st =
     (if int i < maxiter then
        (case body i st of
           Return rv st' \<Rightarrow> (rv, st')
         | Next st' \<Rightarrow> clean_loop body maxiter (Suc i) st')
      else (maxiter, st))"
  by pat_completeness auto
termination
  by (relation "measure (\<lambda>(body, maxiter, i, st). nat (maxiter - int i))") auto

declare clean_loop.simps [simp del]

text \<open>
  The state at the start of iteration \<open>n\<close>, when the body has fallen through \<open>n\<close> times
  (the iteration budget left aside).
\<close>

fun state_at :: "(nat \<Rightarrow> 's \<Rightarrow> 's outcome) \<Rightarrow> 's \<Rightarrow> nat \<Rightarrow> 's option" where
  "state_at body st0 0 = Some st0"
| "state_at body st0 (Suc n) =
     (case state_at body st0 n of
        None \<Rightarrow> None
      | Some st \<Rightarrow> (case body n st of Next st' \<Rightarrow> Some st' | Return rv st' \<Rightarrow> None))"

text \<open>
  The variables that live across iterations: the two buffers that are mutated in place,
  \<^verbatim>\<open>score\<close>, \<^verbatim>\<open>firstscore\<close>, \<^verbatim>\<open>max\<close> (a pair \<^verbatim>\<open>maxr, maxi\<close> in the complex kernels),
  \<^verbatim>\<open>argmax\<close> and \<^verbatim>\<open>nargmax\<close> (pairs in the 2-D kernels).
\<close>

record ('b, 'v, 'ix) clean_state =
  st_res :: 'b
  st_mdl :: 'b
  st_score :: real
  st_firstscore :: real
  st_max :: 'v
  st_argmax :: 'ix
  st_nargmax :: 'ix

definition init_state :: "'b \<Rightarrow> 'b \<Rightarrow> 'v \<Rightarrow> 'ix \<Rightarrow> ('b, 'v, 'ix) clean_state" where
  "init_state res mdl mx ix =
     \<lparr>st_res = res, st_mdl = mdl, st_score = -1, st_firstscore = -1,
      st_max = mx, st_argmax = ix, st_nargmax = ix\<rparr>"

subsection \<open>\<^verbatim>\<open>Clean<T>::clean_1d_r\<close>\<close>

text \<open>\<^verbatim>\<open>step = (T) gain * max * q\<close>, shared by the two real kernels.\<close>

definition rstep :: "(real \<Rightarrow> real) \<Rightarrow> real \<Rightarrow> real \<Rightarrow> real \<Rightarrow> real" where
  "rstep rnd gain mx q = rnd (rnd (rnd gain * mx) * q)"

fun ker_step_1d_r :: "(real \<Rightarrow> real) \<Rightarrow> real list \<Rightarrow> nat \<Rightarrow> real \<times> real \<Rightarrow> real \<times> real" where
  "ker_step_1d_r rnd ker n (mq, q) =
     (let val = ker ! n;
          mval = rnd (val * val)
      in if mval > mq then (mval, val) else (mq, q))"

definition ker_peak_1d_r :: "(real \<Rightarrow> real) \<Rightarrow> real list \<Rightarrow> nat \<Rightarrow> real \<times> real" where
  "ker_peak_1d_r rnd ker dim0 = fold (ker_step_1d_r rnd ker) [0..<dim0] (0, 0)"

definition kernel_q_1d_r :: "(real \<Rightarrow> real) \<Rightarrow> real list \<Rightarrow> nat \<Rightarrow> real" where
  "kernel_q_1d_r rnd ker dim0 = (let (mq, q) = ker_peak_1d_r rnd ker dim0 in rnd (1 / q))"

fun take_step_1d_r ::
  "(real \<Rightarrow> real) \<Rightarrow> real list \<Rightarrow> nat \<Rightarrow> nat \<Rightarrow> real \<Rightarrow> nat \<Rightarrow>
   real list \<times> real \<times> real \<times> real \<times> nat \<Rightarrow> real list \<times> real \<times> real \<times> real \<times> nat" where
  "take_step_1d_r rnd ker dim0 argmax step n (res, nscore, mmax, mx, nargmax) =
     (let wrap_n = (n + argmax) mod dim0;
          res = res[wrap_n := rnd (res ! wrap_n - rnd (ker ! n * step))];
          val = res ! wrap_n;
          mval = rnd (val * val);
          nscore = rnd (nscore + mval)
      in if mval > mmax then (res, nscore, mval, val, wrap_n)
         else (res, nscore, mmax, mx, nargmax))"

definition undo_step_1d_r ::
  "(real \<Rightarrow> real) \<Rightarrow> real list \<Rightarrow> nat \<Rightarrow> nat \<Rightarrow> real \<Rightarrow> nat \<Rightarrow> real list \<Rightarrow> real list" where
  "undo_step_1d_r rnd ker dim0 argmax step n res =
     (let wrap_n = (n + argmax) mod dim0
      in res[wrap_n := rnd (res ! wrap_n + rnd (ker ! n * step))])"

text \<open>The two \<^verbatim>\<open>for (int n=0; n < dim; n++)\<close> loops of an iteration.\<close>

definition take_steps_1d_r ::
  "(real \<Rightarrow> real) \<Rightarrow> real list \<Rightarrow> nat \<Rightarrow> nat \<Rightarrow> real \<Rightarrow>
   real list \<times> real \<times> real \<times> real \<times> nat \<Rightarrow> real list \<times> real \<times> real \<times> real \<times> nat" where
  "take_steps_1d_r rnd ker dim0 argmax step acc =
     fold (take_step_1d_r rnd ker dim0 argmax step) [0..<dim0] acc"

definition undo_steps_1d_r ::
  "(real \<Rightarrow> real) \<Rightarrow> real list \<Rightarrow> nat \<Rightarrow> nat \<Rightarrow> real \<Rightarrow> real list \<Rightarrow> real list" where
  "undo_steps_1d_r rnd ker dim0 argmax step res =
     fold (undo_step_1d_r rnd ker dim0 argmax step) [0..<dim0] res"

definition clean_1d_r_iter ::
  "(real \<Rightarrow> real) \<Rightarrow> real list \<Rightarrow> real \<Rightarrow> real \<Rightarrow> real \<Rightarrow> nat \<Rightarrow>
   (real list, real, nat) clean_state \<Rightarrow> (real list, real, nat) clean_state outcome" where
  "clean_1d_r_iter rnd ker q gain tol i st =
     (let dim0 = length (st_res st);
          argmax = st_argmax st;
          step = rstep rnd gain (st_max st) q;
          mdl = (st_mdl st)[argmax := rnd (st_mdl st ! argmax + step)];
          (res, sumsq, mmax, mx, nargmax) =
             take_steps_1d_r rnd ker dim0 argmax step
               (st_res st, 0, -1, st_max st, st_nargmax st);
          nscore = rnd (sqrt (rnd (sumsq / rnd (real dim0))));
          firstscore = (if st_firstscore st < 0 then nscore else st_firstscore st);
          st1 = st\<lparr>st_res := res, st_mdl := mdl, st_firstscore := firstscore,
                   st_max := mx, st_nargmax := nargmax\<rparr>
      in if st_score st > 0 \<and> nscore > st_score st then
           Return (- int i)
             (st1\<lparr>st_mdl := mdl[argmax := rnd (mdl ! argmax - step)],
                  st_res := undo_steps_1d_r rnd ker dim0 argmax step res\<rparr>)
         else if st_score st > 0 \<and> rnd (rnd (st_score st - nscore) / firstscore) < tol then
           Return (int i) st1
         else Next (st1\<lparr>st_score := nscore, st_argmax := nargmax\<rparr>))"

definition clean_1d_r ::
  "(real \<Rightarrow> real) \<Rightarrow> real list \<Rightarrow> real list \<Rightarrow> real list \<Rightarrow> real \<Rightarrow> int \<Rightarrow> real \<Rightarrow>
   int \<times> real list \<times> real list" where
  "clean_1d_r rnd res ker mdl gain maxiter tol =
     (let q = kernel_q_1d_r rnd ker (length res);
          (rv, st) = clean_loop (clean_1d_r_iter rnd ker q gain tol) maxiter 0
                       (init_state res mdl 0 0)
      in (rv, st_res st, st_mdl st))"

subsection \<open>\<^verbatim>\<open>Clean<T>::clean_2d_r\<close>\<close>

text \<open>
  \<^verbatim>\<open>IND2(a,i,j,T)\<close> read and written; \<^verbatim>\<open>DIM(a,0)\<close> and \<^verbatim>\<open>DIM(a,1)\<close> of a list of rows.
\<close>

definition IND2 :: "'a list list \<Rightarrow> nat \<Rightarrow> nat \<Rightarrow> 'a" where
  "IND2 a i j = a ! i ! j"

definition set_IND2 :: "'a list list \<Rightarrow> nat \<Rightarrow> nat \<Rightarrow> 'a \<Rightarrow> 'a list list" where
  "set_IND2 a i j v = a[i := (a ! i)[j := v]]"

definition DIM_0 :: "'a list list \<Rightarrow> nat" where
  "DIM_0 a = length a"

definition DIM_1 :: "'a list list \<Rightarrow> nat" where
  "DIM_1 a = (case a of [] \<Rightarrow> 0 | row # rows \<Rightarrow> length row)"

fun ker_step_2d_r ::
  "(real \<Rightarrow> real) \<Rightarrow> real list list \<Rightarrow> nat \<Rightarrow> nat \<Rightarrow> real \<times> real \<Rightarrow> real \<times> real" where
  "ker_step_2d_r rnd ker n1 n2 (mq, q) =
     (let val = IND2 ker n1 n2;
          mval = rnd (val * val)
      in if mval > mq then (mval, val) else (mq, q))"

definition ker_peak_2d_r :: "(real \<Rightarrow> real) \<Rightarrow> real list list \<Rightarrow> nat \<Rightarrow> nat \<Rightarrow> real \<times> real" where
  "ker_peak_2d_r rnd ker dim1 dim2 =
     fold (\<lambda>n1. fold (ker_step_2d_r rnd ker n1) [0..<dim2]) [0..<dim1] (0, 0)"

definition kernel_q_2d_r :: "(real \<Rightarrow> real) \<Rightarrow> real list list \<Rightarrow> nat \<Rightarrow> nat \<Rightarrow> real" where
  "kernel_q_2d_r rnd ker dim1 dim2 =
     (let (mq, q) = ker_peak_2d_r rnd ker dim1 dim2 in rnd (1 / q))"

fun take_step_2d_r ::
  "(real \<Rightarrow> real) \<Rightarrow> real list list \<Rightarrow> nat \<Rightarrow> nat \<Rightarrow> real \<Rightarrow> nat \<Rightarrow> nat \<Rightarrow> nat \<Rightarrow>
   real list list \<times> real \<times> real \<times> real \<times> nat \<times> nat \<Rightarrow>
   real list list \<times> real \<times> real \<times> real \<times> nat \<times> nat" where
  "take_step_2d_r rnd ker dim2 argmax2 step wrap_n1 n1 n2 (res, nscore, mmax, mx, nargmax) =
     (let wrap_n2 = (n2 + argmax2) mod dim2;
          res = set_IND2 res wrap_n1 wrap_n2
                  (rnd (IND2 res wrap_n1 wrap_n2 - rnd (IND2 ker n1 n2 * step)));
          val = IND2 res wrap_n1 wrap_n2;
          mval = rnd (val * val);
          nscore = rnd (nscore + mval)
      in if mval > mmax then (res, nscore, mval, val, (wrap_n1, wrap_n2))
         else (res, nscore, mmax, mx, nargmax))"

definition undo_step_2d_r ::
  "(real \<Rightarrow> real) \<Rightarrow> real list list \<Rightarrow> nat \<Rightarrow> nat \<Rightarrow> real \<Rightarrow> nat \<Rightarrow> nat \<Rightarrow> nat \<Rightarrow>
   real list list \<Rightarrow> real list list" where
  "undo_step_2d_r rnd ker dim2 argmax2 step wrap_n1 n1 n2 res =
     (let wrap_n2 = (n2 + argmax2) mod dim2
      in set_IND2 res wrap_n1 wrap_n2
           (rnd (IND2 res wrap_n1 wrap_n2 + rnd (IND2 ker n1 n2 * step))))"

text \<open>The two nested \<^verbatim>\<open>for n1\<close>/\<^verbatim>\<open>for n2\<close> loops of an iteration.\<close>

definition take_steps_2d_r ::
  "(real \<Rightarrow> real) \<Rightarrow> real list list \<Rightarrow> nat \<Rightarrow> nat \<Rightarrow> nat \<Rightarrow> nat \<Rightarrow> real \<Rightarrow>
   real list list \<times> real \<times> real \<times> real \<times> nat \<times> nat \<Rightarrow>
   real list list \<times> real \<times> real \<times> real \<times> nat \<times> nat" where
  "take_steps_2d_r rnd ker dim1 dim2 argmax1 argmax2 step acc =
     fold (\<lambda>n1. let wrap_n1 = (n1 + argmax1) mod dim1
                in fold (take_step_2d_r rnd ker dim2 argmax2 step wrap_n1 n1) [0..<dim2])
       [0..<dim1] acc"

definition undo_steps_2d_r ::
  "(real \<Rightarrow> real) \<Rightarrow> real list list \<Rightarrow> nat \<Rightarrow> nat \<Rightarrow> nat \<Rightarrow> nat \<Rightarrow> real \<Rightarrow>
   real list list \<Rightarrow> real list list" where
  "undo_steps_2d_r rnd ker dim1 dim2 argmax1 argmax2 step res =
     fold (\<lambda>n1. let wrap_n1 = (n1 + argmax1) mod dim1
                in fold (undo_step_2d_r rnd ker dim2 argmax2 step wrap_n1 n1) [0..<dim2])
       [0..<dim1] res"

definition clean_2d_r_iter ::
  "(real \<Rightarrow> real) \<Rightarrow> real list list \<Rightarrow> real \<Rightarrow> real \<Rightarrow> real \<Rightarrow> nat \<Rightarrow>
   (real list list, real, nat \<times> nat) clean_state \<Rightarrow>
   (real list list, real, nat \<times> nat) clean_state outcome" where
  "clean_2d_r_iter rnd ker q gain tol i st =
     (let dim1 = DIM_0 (st_res st); dim2 = DIM_1 (st_res st);
          (argmax1, argmax2) = st_argmax st;
          step = rstep rnd gain (st_max st) q;
          mdl = set_IND2 (st_mdl st) argmax1 argmax2
                  (rnd (IND2 (st_mdl st) argmax1 argmax2 + step));
          (res, sumsq, mmax, mx, nargmax) =
             take_steps_2d_r rnd ker dim1 dim2 argmax1 argmax2 step
               (st_res st, 0, -1, st_max st, st_nargmax st);
          nscore = rnd (sqrt (rnd (sumsq / rnd (real (dim1 * dim2)))));
          firstscore = (if st_firstscore st < 0 then nscore else st_firstscore st);
          st1 = st\<lparr>st_res := res, st_mdl := mdl, st_firstscore := firstscore,
                   st_max := mx, st_nargmax := nargmax\<rparr>
      in if st_score st > 0 \<and> nscore > st_score st then
           Return (- int i)
             (st1\<lparr>st_mdl := set_IND2 mdl argmax1 argmax2 (rnd (IND2 mdl argmax1 argmax2 - step)),
                  st_res := undo_steps_2d_r rnd ker dim1 dim2 argmax1 argmax2 step res\<rparr>)
         else if st_score st > 0 \<and> rnd (rnd (st_score st - nscore) / firstscore) < tol then
           Return (int i) st1
         else Next (st1\<lparr>st_score := nscore, st_argmax := nargmax\<rparr>))"

definition clean_2d_r ::
  "(real \<Rightarrow> real) \<Rightarrow> real list list \<Rightarrow> real list list \<Rightarrow> real list list \<Rightarrow> real \<Rightarrow> int \<Rightarrow> real \<Rightarrow>
   int \<times> real list list \<times> real list list" where
  "clean_2d_r rnd res ker mdl gain maxiter tol =
     (let q = kernel_q_2d_r rnd ker (DIM_0 res) (DIM_1 res);
          (rv, st) = clean_loop (clean_2d_r_iter rnd ker q gain tol) maxiter 0
                       (init_state res mdl 0 (0, 0))
      in (rv, st_res st, st_mdl st))"

subsection \<open>\<^verbatim>\<open>Clean<T>::clean_1d_c\<close>\<close>

type_synonym cplx = "real \<times> real"

text \<open>
  The squared modulus \<^verbatim>\<open>valr * valr + vali * vali\<close>, the product
  \<^verbatim>\<open>(ar*br - ai*bi, ar*bi + ai*br)\<close> that the source writes out for \<^verbatim>\<open>max * q\<close> and
  \<^verbatim>\<open>ker * step\<close>, and the componentwise \<^verbatim>\<open>+=\<close> and \<^verbatim>\<open>-=\<close>, each operation rounded.
\<close>

definition sqmod :: "(real \<Rightarrow> real) \<Rightarrow> cplx \<Rightarrow> real" where
  "sqmod rnd v = (case v of (valr, vali) \<Rightarrow> rnd (rnd (valr * valr) + rnd (vali * vali)))"

definition cmul :: "(real \<Rightarrow> real) \<Rightarrow> cplx \<Rightarrow> cplx \<Rightarrow> cplx" where
  "cmul rnd a b =
     (case a of (ar, ai) \<Rightarrow> case b of (br, bi) \<Rightarrow>
        (rnd (rnd (ar * br) - rnd (ai * bi)), rnd (rnd (ar * bi) + rnd (ai * br))))"

definition cadd :: "(real \<Rightarrow> real) \<Rightarrow> cplx \<Rightarrow> cplx \<Rightarrow> cplx" where
  "cadd rnd a b = (case a of (ar, ai) \<Rightarrow> case b of (br, bi) \<Rightarrow> (rnd (ar + br), rnd (ai + bi)))"

definition csub :: "(real \<Rightarrow> real) \<Rightarrow> cplx \<Rightarrow> cplx \<Rightarrow> cplx" where
  "csub rnd a b = (case a of (ar, ai) \<Rightarrow> case b of (br, bi) \<Rightarrow> (rnd (ar - br), rnd (ai - bi)))"

definition cstep :: "(real \<Rightarrow> real) \<Rightarrow> real \<Rightarrow> cplx \<Rightarrow> cplx \<Rightarrow> cplx" where
  "cstep rnd gain mx q =
     (case cmul rnd mx q of (pr, pim) \<Rightarrow> (rnd (rnd gain * pr), rnd (rnd gain * pim)))"

fun ker_step_1d_c ::
  "(real \<Rightarrow> real) \<Rightarrow> cplx list \<Rightarrow> nat \<Rightarrow> real \<times> cplx \<Rightarrow> real \<times> cplx" where
  "ker_step_1d_c rnd ker n (mq, q) =
     (let val = ker ! n;
          mval = sqmod rnd val
      in if mval > mq then (mval, val) else (mq, q))"

definition ker_peak_1d_c :: "(real \<Rightarrow> real) \<Rightarrow> cplx list \<Rightarrow> nat \<Rightarrow> real \<times> cplx" where
  "ker_peak_1d_c rnd ker dim0 = fold (ker_step_1d_c rnd ker) [0..<dim0] (0, (0, 0))"

definition kernel_q_1d_c :: "(real \<Rightarrow> real) \<Rightarrow> cplx list \<Rightarrow> nat \<Rightarrow> cplx" where
  "kernel_q_1d_c rnd ker dim0 =
     (let (mq, (qr, qi)) = ker_peak_1d_c rnd ker dim0 in (rnd (qr / mq), rnd (- qi / mq)))"

fun take_step_1d_c ::
  "(real \<Rightarrow> real) \<Rightarrow> cplx list \<Rightarrow> nat \<Rightarrow> nat \<Rightarrow> cplx \<Rightarrow> nat \<Rightarrow>
   cplx list \<times> real \<times> real \<times> cplx \<times> nat \<Rightarrow> cplx list \<times> real \<times> real \<times> cplx \<times> nat" where
  "take_step_1d_c rnd ker dim0 argmax step n (res, nscore, mmax, mx, nargmax) =
     (let wrap_n = (n + argmax) mod dim0;
          res = res[wrap_n := csub rnd (res ! wrap_n) (cmul rnd (ker ! n) step)];
          val = res ! wrap_n;
          mval = sqmod rnd val;
          nscore = rnd (nscore + mval)
      in if mval > mmax then (res, nscore, mval, val, wrap_n)
         else (res, nscore, mmax, mx, nargmax))"

definition undo_step_1d_c ::
  "(real \<Rightarrow> real) \<Rightarrow> cplx list \<Rightarrow> nat \<Rightarrow> nat \<Rightarrow> cplx \<Rightarrow> nat \<Rightarrow> cplx list \<Rightarrow> cplx list" where
  "undo_step_1d_c rnd ker dim0 argmax step n res =
     (let wrap_n = (n + argmax) mod dim0
      in res[wrap_n := cadd rnd (res ! wrap_n) (cmul rnd (ker ! n) step)])"

definition take_steps_1d_c ::
  "(real \<Rightarrow> real) \<Rightarrow> cplx list \<Rightarrow> nat \<Rightarrow> nat \<Rightarrow> cplx \<Rightarrow>
   cplx list \<times> real \<times> real \<times> cplx \<times> nat \<Rightarrow> cplx list \<times> real \<times> real \<times> cplx \<times> nat" where
  "take_steps_1d_c rnd ker dim0 argmax step acc =
     fold (take_step_1d_c rnd ker dim0 argmax step) [0..<dim0] acc"

definition undo_steps_1d_c ::
  "(real \<Rightarrow> real) \<Rightarrow> cplx list \<Rightarrow> nat \<Rightarrow> nat \<Rightarrow> cplx \<Rightarrow> cplx list \<Rightarrow> cplx list" where
  "undo_steps_1d_c rnd ker dim0 argmax step res =
     fold (undo_step_1d_c rnd ker dim0 argmax step) [0..<dim0] res"

definition clean_1d_c_iter ::
  "(real \<Rightarrow> real) \<Rightarrow> cplx list \<Rightarrow> cplx \<Rightarrow> real \<Rightarrow> real \<Rightarrow> nat \<Rightarrow>
   (cplx list, cplx, nat) clean_state \<Rightarrow> (cplx list, cplx, nat) clean_state outcome" where
  "clean_1d_c_iter rnd ker q gain tol i st =
     (let dim0 = length (st_res st);
          argmax = st_argmax st;
          step = cstep rnd gain (st_max st) q;
          mdl = (st_mdl st)[argmax := cadd rnd (st_mdl st ! argmax) step];
          (res, sumsq, mmax, mx, nargmax) =
             take_steps_1d_c rnd ker dim0 argmax step
               (st_res st, 0, -1, st_max st, st_nargmax st);
          nscore = rnd (sqrt (rnd (sumsq / rnd (real dim0))));
          firstscore = (if st_firstscore st < 0 then nscore else st_firstscore st);
          st1 = st\<lparr>st_res := res, st_mdl := mdl, st_firstscore := firstscore,
                   st_max := mx, st_nargmax := nargmax\<rparr>
      in if st_score st > 0 \<and> nscore > st_score st then
           Return (- int i)
             (st1\<lparr>st_mdl := mdl[argmax := csub rnd (mdl ! argmax) step],
                  st_res := undo_steps_1d_c rnd ker dim0 argmax step res\<rparr>)
         else if st_score st > 0 \<and> rnd (rnd (st_score st - nscore) / firstscore) < tol then
           Return (int i) st1
         else Next (st1\<lparr>st_score := nscore, st_argmax := nargmax\<rparr>))"

definition clean_1d_c ::
  "(real \<Rightarrow> real) \<Rightarrow> cplx list \<Rightarrow> cplx list \<Rightarrow> cplx list \<Rightarrow> real \<Rightarrow> int \<Rightarrow> real \<Rightarrow>
   int \<times> cplx list \<times> cplx list" where
  "clean_1d_c rnd res ker mdl gain maxiter tol =
     (let q = kernel_q_1d_c rnd ker (length res);
          (rv, st) = clean_loop (clean_1d_c_iter rnd ker q gain tol) maxiter 0
                       (init_state res mdl (0, 0) 0)
      in (rv, st_res st, st_mdl st))"

subsection \<open>\<^verbatim>\<open>Clean<T>::clean_2d_c\<close>\<close>

fun ker_step_2d_c ::
  "(real \<Rightarrow> real) \<Rightarrow> cplx list list \<Rightarrow> nat \<Rightarrow> nat \<Rightarrow> real \<times> cplx \<Rightarrow> real \<times> cplx" where
  "ker_step_2d_c rnd ker n1 n2 (mq, q) =
     (let val = IND2 ker n1 n2;
          mval = sqmod rnd val
      in if mval > mq then (mval, val) else (mq, q))"

definition ker_peak_2d_c :: "(real \<Rightarrow> real) \<Rightarrow> cplx list list \<Rightarrow> nat \<Rightarrow> nat \<Rightarrow> real \<times> cplx" where
  "ker_peak_2d_c rnd ker dim1 dim2 =
     fold (\<lambda>n1. fold (ker_step_2d_c rnd ker n1) [0..<dim2]) [0..<dim1] (0, (0, 0))"

definition kernel_q_2d_c :: "(real \<Rightarrow> real) \<Rightarrow> cplx list list \<Rightarrow> nat \<Rightarrow> nat \<Rightarrow> cplx" where
  "kernel_q_2d_c rnd ker dim1 dim2 =
     (let (mq, (qr, qi)) = ker_peak_2d_c rnd ker dim1 dim2 in (rnd (qr / mq), rnd (- qi / mq)))"

fun take_step_2d_c ::
  "(real \<Rightarrow> real) \<Rightarrow> cplx list list \<Rightarrow> nat \<Rightarrow> nat \<Rightarrow> cplx \<Rightarrow> nat \<Rightarrow> nat \<Rightarrow> nat \<Rightarrow>
   cplx list list \<times> real \<times> real \<times> cplx \<times> nat \<times> nat \<Rightarrow>
   cplx list list \<times> real \<times> real \<times> cplx \<times> nat \<times> nat" where
  "take_step_2d_c rnd ker dim2 argmax2 step wrap_n1 n1 n2 (res, nscore, mmax, mx, nargmax) =
     (let wrap_n2 = (n2 + argmax2) mod dim2;
          res = set_IND2 res wrap_n1 wrap_n2
                  (csub rnd (IND2 res wrap_n1 wrap_n2) (cmul rnd (IND2 ker n1 n2) step));
          val = IND2 res wrap_n1 wrap_n2;
          mval = sqmod rnd val;
          nscore = rnd (nscore + mval)
      in if mval > mmax then (res, nscore, mval, val, (wrap_n1, wrap_n2))
         else (res, nscore, mmax, mx, nargmax))"

definition undo_step_2d_c ::
  "(real \<Rightarrow> real) \<Rightarrow> cplx list list \<Rightarrow> nat \<Rightarrow> nat \<Rightarrow> cplx \<Rightarrow> nat \<Rightarrow> nat \<Rightarrow> nat \<Rightarrow>
   cplx list list \<Rightarrow> cplx list list" where
  "undo_step_2d_c rnd ker dim2 argmax2 step wrap_n1 n1 n2 res =
     (let wrap_n2 = (n2 + argmax2) mod dim2
      in set_IND2 res wrap_n1 wrap_n2
           (cadd rnd (IND2 res wrap_n1 wrap_n2) (cmul rnd (IND2 ker n1 n2) step)))"

definition take_steps_2d_c ::
  "(real \<Rightarrow> real) \<Rightarrow> cplx list list \<Rightarrow> nat \<Rightarrow> nat \<Rightarrow> nat \<Rightarrow> nat \<Rightarrow> cplx \<Rightarrow>
   cplx list list \<times> real \<times> real \<times> cplx \<times> nat \<times> nat \<Rightarrow>
   cplx list list \<times> real \<times> real \<times> cplx \<times> nat \<times> nat" where
  "take_steps_2d_c rnd ker dim1 dim2 argmax1 argmax2 step acc =
     fold (\<lambda>n1. let wrap_n1 = (n1 + argmax1) mod dim1
                in fold (take_step_2d_c rnd ker dim2 argmax2 step wrap_n1 n1) [0..<dim2])
       [0..<dim1] acc"

definition undo_steps_2d_c ::
  "(real \<Rightarrow> real) \<Rightarrow> cplx list list \<Rightarrow> nat \<Rightarrow> nat \<Rightarrow> nat \<Rightarrow> nat \<Rightarrow> cplx \<Rightarrow>
   cplx list list \<Rightarrow> cplx list list" where
  "undo_steps_2d_c rnd ker dim1 dim2 argmax1 argmax2 step res =
     fold (\<lambda>n1. let wrap_n1 = (n1 + argmax1) mod dim1
                in fold (undo_step_2d_c rnd ker dim2 argmax2 step wrap_n1 n1) [0..<dim2])
       [0..<dim1] res"

text \<open>
  In this kernel the branch that undoes a diverged step has no \<^verbatim>\<open>return -i;\<close> (the
  statement stands after \<^verbatim>\<open>return i;\<close> in the next branch, where it is never reached),
  so control falls through to \<^verbatim>\<open>score = nscore; argmax1 = nargmax1; argmax2 = nargmax2;\<close>
  and the loop goes on.
\<close>

definition clean_2d_c_iter ::
  "(real \<Rightarrow> real) \<Rightarrow> cplx list list \<Rightarrow> cplx \<Rightarrow> real \<Rightarrow> real \<Rightarrow> nat \<Rightarrow>
   (cplx list list, cplx, nat \<times> nat) clean_state \<Rightarrow>
   (cplx list list, cplx, nat \<times> nat) clean_state outcome" where
  "clean_2d_c_iter rnd ker q gain tol i st =
     (let dim1 = DIM_0 (st_res st); dim2 = DIM_1 (st_res st);
          (argmax1, argmax2) = st_argmax st;
          step = cstep rnd gain (st_max st) q;
          mdl = set_IND2 (st_mdl st) argmax1 argmax2
                  (cadd rnd (IND2 (st_mdl st) argmax1 argmax2) step);
          (res, sumsq, mmax, mx, nargmax) =
             take_steps_2d_c rnd ker dim1 dim2 argmax1 argmax2 step
               (st_res st, 0, -1, st_max st, st_nargmax st);
          nscore = rnd (sqrt (rnd (sumsq / rnd (real (dim1 * dim2)))));
          firstscore = (if st_firstscore st < 0 then nscore else st_firstscore st);
          st1 = st\<lparr>st_res := res, st_mdl := mdl, st_firstscore := firstscore,
                   st_max := mx, st_nargmax := nargmax\<rparr>
      in if st_score st > 0 \<and> nscore > st_score st then
           Next (st1\<lparr>st_mdl := set_IND2 mdl argmax1 argmax2
                                 (csub rnd (IND2 mdl argmax1 argmax2) step),
                     st_res := undo_steps_2d_c rnd ker dim1 dim2 argmax1 argmax2 step res,
                     st_score := nscore, st_argmax := nargmax\<rparr>)
         else if st_score st > 0 \<and> rnd (rnd (st_score st - nscore) / firstscore) < tol then
           Return (int i) st1
         else Next (st1\<lparr>st_score := nscore, st_argmax := nargmax\<rparr>))"

definition clean_2d_c ::
  "(real \<Rightarrow> real) \<Rightarrow> cplx list list \<Rightarrow> cplx list list \<Rightarrow> cplx list list \<Rightarrow> real \<Rightarrow> int \<Rightarrow> real \<Rightarrow>
   int \<times> cplx list list \<times> cplx list list" where
  "clean_2d_c rnd res ker mdl gain maxiter tol =
     (let q = kernel_q_2d_c rnd ker (DIM_0 res) (DIM_1 res);
          (rv, st) = clean_loop (clean_2d_c_iter rnd ker q gain tol) maxiter 0
                       (init_state res mdl (0, 0) (0, 0))
      in (rv, st_res st, st_mdl st))"

text \<open>
  The state at the start of iteration \<open>n\<close> of each kernel, for the arguments of a call.
\<close>

definition iter_state_1d_r ::
  "(real \<Rightarrow> real) \<Rightarrow> real list \<Rightarrow> real list \<Rightarrow> real list \<Rightarrow> real \<Rightarrow> real \<Rightarrow> nat \<Rightarrow>
   (real list, real, nat) clean_state option" where
  "iter_state_1d_r rnd res ker mdl gain tol n =
     state_at (clean_1d_r_iter rnd ker (kernel_q_1d_r rnd ker (length res)) gain tol)
       (init_state res mdl 0 0) n"

definition iter_state_2d_r ::
  "(real \<Rightarrow> real) \<Rightarrow> real list list \<Rightarrow> real list list \<Rightarrow> real list list \<Rightarrow> real \<Rightarrow> real \<Rightarrow> nat \<Rightarrow>
   (real list list, real, nat \<times> nat) clean_state option" where
  "iter_state_2d_r rnd res ker mdl gain tol n =
     state_at (clean_2d_r_iter rnd ker (kernel_q_2d_r rnd ker (DIM_0 res) (DIM_1 res)) gain tol)
       (init_state res mdl 0 (0, 0)) n"

definition iter_state_1d_c ::
  "(real \<Rightarrow> real) \<Rightarrow> cplx list \<Rightarrow> cplx list \<Rightarrow> cplx list \<Rightarrow> real \<Rightarrow> real \<Rightarrow> nat \<Rightarrow>
   (cplx list, cplx, nat) clean_state option" where
  "iter_state_1d_c rnd res ker mdl gain tol n =
     state_at (clean_1d_c_iter rnd ker (kernel_q_1d_c rnd ker (length res)) gain tol)
       (init_state res mdl (0, 0) 0) n"

definition iter_state_2d_c ::
  "(real \<Rightarrow> real) \<Rightarrow> cplx list list \<Rightarrow> cplx list list \<Rightarrow> cplx list list \<Rightarrow> real \<Rightarrow> real \<Rightarrow> nat \<Rightarrow>
   (cplx list list, cplx, nat \<times> nat) clean_state option" where
  "iter_state_2d_c rnd res ker mdl gain tol n =
     state_at (clean_2d_c_iter rnd ker (kernel_q_2d_c rnd ker (DIM_0 res) (DIM_1 res)) gain tol)
       (init_state res mdl (0, 0) (0, 0)) n"

subsection \<open>The wrapped index in \<^verbatim>\<open>int\<close> arithmetic\<close>

text \<open>
  The kernels above compute the wrapped index on natural numbers. The source computes
  \<^verbatim>\<open>int wrap_n = (n + argmax) % dim;\<close> in 32-bit \<^verbatim>\<open>int\<close>: a sum beyond \<open>2\<^sup>3\<^sup>1 - 1\<close> overflows
  (the wrap-around of two's complement is written out in \<open>int32\<close>), and \<^verbatim>\<open>%\<close> truncates
  towards zero, so that its result has the sign of the sum.
\<close>

definition int32 :: "int \<Rightarrow> int" where
  "int32 x = (x + 2 ^ 31) mod 2 ^ 32 - 2 ^ 31"

definition c_rem :: "int \<Rightarrow> int \<Rightarrow> int" where
  "c_rem a b = (if 0 \<le> a then a mod \<bar>b\<bar> else - ((- a) mod \<bar>b\<bar>))"

definition wrap_index :: "int \<Rightarrow> int \<Rightarrow> int \<Rightarrow> int" where
  "wrap_index n argmax dim0 = c_rem (int32 (n + argmax)) dim0"

subsection \<open>The wrapper \<^verbatim>\<open>clean\<close>\<close>

text \<open>
  Of a \<^verbatim>\<open>PyArrayObject\<close> the wrapper reads \<^verbatim>\<open>nd\<close>, \<^verbatim>\<open>dimensions\<close> and
  \<^verbatim>\<open>descr->type_num\<close>. The numpy header that numbers the element types is not part of
  the repository; the six constants the wrapper names are constructors here and any
  other type number \<open>t\<close> is \<open>NPY_OTHER t\<close>. Argument parsing
  (\<^verbatim>\<open>PyArg_ParseTupleAndKeywords\<close>) has succeeded when this code runs. The result is either
  the message of the \<^verbatim>\<open>ValueError\<close> or the instance of the template that is called.
\<close>

datatype npy_type =
  NPY_FLOAT | NPY_DOUBLE | NPY_LONGDOUBLE | NPY_CFLOAT | NPY_CDOUBLE | NPY_CLONGDOUBLE |
  NPY_OTHER nat

record pyarray =
  nd :: nat
  dimensions :: "nat list"
  type_num :: npy_type

datatype elem_type = T_float | T_double | T_long_double

datatype kernel = Clean_1d_r | Clean_2d_r | Clean_1d_c | Clean_2d_c

definition RANK :: "pyarray \<Rightarrow> nat" where
  "RANK a = nd a"

definition DIM :: "pyarray \<Rightarrow> nat \<Rightarrow> nat" where
  "DIM a i = dimensions a ! i"

definition TYPE_NUM :: "pyarray \<Rightarrow> npy_type" where
  "TYPE_NUM a = type_num a"

text \<open>The rank and extent checks; the value is the local variable \<^verbatim>\<open>rank\<close>.\<close>

definition check_shapes :: "pyarray \<Rightarrow> pyarray \<Rightarrow> pyarray \<Rightarrow> string + nat" where
  "check_shapes res ker mdl =
     (if RANK res = 1 then
        if RANK ker \<noteq> 1 then Inl ''rank(ker) != 1''
        else if RANK mdl \<noteq> 1 then Inl ''rank(mdl) != 1''
        else let dim1 = DIM res 0
             in if DIM ker 0 \<noteq> dim1 then Inl ''dim(ker) != dim1''
                else if DIM mdl 0 \<noteq> dim1 then Inl ''dim(mdl) != dim1''
                else Inr 1
      else if RANK res = 2 then
        if RANK ker \<noteq> 2 then Inl ''rank(ker) != 2''
        else if RANK mdl \<noteq> 2 then Inl ''rank(mdl) != 2''
        else let dim1 = DIM res 0; dim2 = DIM res 1
             in if DIM ker 0 \<noteq> dim1 then Inl ''dim(ker) != dim1''
                else if DIM mdl 0 \<noteq> dim1 then Inl ''dim(mdl) != dim1''
                else if DIM ker 1 \<noteq> dim2 then Inl ''dim(ker) != dim2''
                else if DIM mdl 1 \<noteq> dim2 then Inl ''dim(mdl) != dim2''
                else Inr 2
      else Inr 0)"

definition clean :: "pyarray \<Rightarrow> pyarray \<Rightarrow> pyarray \<Rightarrow> string + elem_type \<times> kernel" where
  "clean res ker mdl =
     (case check_shapes res ker mdl of
        Inl err \<Rightarrow> Inl err
      | Inr rank \<Rightarrow>
          if TYPE_NUM res \<noteq> TYPE_NUM ker \<or> TYPE_NUM res \<noteq> TYPE_NUM mdl then Inl ''array types must match''
          else if TYPE_NUM res = NPY_FLOAT then
            (if rank = 1 then Inr (T_float, Clean_1d_r) else Inr (T_float, Clean_2d_r))
          else if TYPE_NUM res = NPY_DOUBLE then
            (if rank = 1 then Inr (T_double, Clean_1d_r) else Inr (T_double, Clean_2d_r))
          else if TYPE_NUM res = NPY_LONGDOUBLE then
            (if rank = 1 then Inr (T_long_double, Clean_1d_r) else Inr (T_long_double, Clean_2d_r))
          else if TYPE_NUM res = NPY_CFLOAT then
            (if rank = 1 then Inr (T_float, Clean_1d_c) else Inr (T_float, Clean_2d_c))
          else if TYPE_NUM res = NPY_CDOUBLE then
            (if rank = 1 then Inr (T_double, Clean_1d_c) else Inr (T_double, Clean_2d_c))
          else if TYPE_NUM res = NPY_CLONGDOUBLE then
            (if rank = 1 then Inr (T_long_double, Clean_1d_c) else Inr (T_long_double, Clean_2d_c))
          else Inl ''Unsupported data type.'')"

subsection \<open>Rounding functions\<close>

text \<open>
  Rounding to the nearest number with \<open>p\<close> significant bits, ties to the even
  significand, with an unbounded exponent range (no overflow, no subnormal numbers):
  \<^verbatim>\<open>float\<close> has 24 significant bits and \<^verbatim>\<open>double\<close> has 53.
\<close>

definition round_even :: "real \<Rightarrow> int" where
  "round_even m =
     (let f = \<lfloor>m\<rfloor>
      in if m - of_int f < 1 / 2 then f
         else if m - of_int f > 1 / 2 then f + 1
         else if even f then f else f + 1)"

definition fl :: "nat \<Rightarrow> real \<Rightarrow> real" where
  "fl p x =
     (if x = 0 then 0
      else let e = \<lfloor>log 2 \<bar>x\<bar>\<rfloor> - int p + 1
           in of_int (round_even (x / 2 powr of_int e)) * 2 powr of_int e)"

definition float32 :: "real \<Rightarrow> real" where
  "float32 = fl 24"

definition float64 :: "real \<Rightarrow> real" where
  "float64 = fl 53"

text \<open>A rounding function leaves the listed values unchanged (they are representable).\<close>

definition exact_on :: "(real \<Rightarrow> real) \<Rightarrow> real list \<Rightarrow> bool" where
  "exact_on rnd xs = (\<forall>x \<in> set xs. rnd x = x)"

subsection \<open>The root mean square of a buffer\<close>

text \<open>
  The quantity an iteration accumulates in \<^verbatim>\<open>nscore\<close> (the sum of the squared moduli,
  divided by the number of elements, under the square root), computed exactly for a
  2-D complex buffer.
\<close>

definition rms_2d_c :: "cplx list list \<Rightarrow> real" where
  "rms_2d_c a =
     sqrt (sum_list (map (\<lambda>row. sum_list (map (\<lambda>(re, im). re * re + im * im) row)) a) /
           real (DIM_0 a * DIM_1 a))"

subsection \<open>In-place updates\<close>

text \<open>
  The body of a loop that overwrites the element at index \<open>w n\<close> with a function of its
  old value, as the step and undo loops do with \<^verbatim>\<open>-=\<close> and \<^verbatim>\<open>+=\<close>.
\<close>

definition upd_at :: "(nat \<Rightarrow> nat) \<Rightarrow> (nat \<Rightarrow> 'a \<Rightarrow> 'a) \<Rightarrow> nat \<Rightarrow> 'a list \<Rightarrow> 'a list" where
  "upd_at w h n xs = xs[w n := h n (xs ! w n)]"

section \<open>The loop\<close>

lemma state_at_None_mono:
  "state_at body st0 n = None \<Longrightarrow> n \<le> m \<Longrightarrow> state_at body st0 m = None"
  by (induction m) (auto simp: le_Suc_eq)

text \<open>When every iteration of the budget falls through, the loop returns \<open>maxiter\<close>.\<close>

lemma clean_loop_exhaust:
  "state_at body st0 (nat maxiter) = Some stf \<Longrightarrow> i \<le> nat maxiter \<Longrightarrow>
   state_at body st0 i = Some st \<Longrightarrow> clean_loop body maxiter i st = (maxiter, stf)"
proof (induction body maxiter i st rule: clean_loop.induct)
  case (1 body maxiter i st)
  show ?case
  proof (cases "int i < maxiter")
    case True
    then have le: "Suc i \<le> nat maxiter" by linarith
    obtain st' where s': "state_at body st0 (Suc i) = Some st'"
      using state_at_None_mono [OF _ le, of body st0] "1.prems"(1)
      by (cases "state_at body st0 (Suc i)") auto
    with "1.prems"(3) have nx: "body i st = Next st'"
      by (auto split: outcome.splits)
    from "1.IH" [OF True nx "1.prems"(1) le s'] True nx show ?thesis
      by (subst clean_loop.simps) simp
  next
    case False
    with "1.prems"(2) have "i = nat maxiter" by linarith
    with "1.prems" False show ?thesis
      by (subst clean_loop.simps) simp
  qed
qed

lemma clean_loop_exhaust0:
  "state_at body st0 (nat maxiter) = Some stf \<Longrightarrow> clean_loop body maxiter 0 st0 = (maxiter, stf)"
  by (rule clean_loop_exhaust) simp_all

text \<open>
  Every result of the loop is either \<open>maxiter\<close>, after the last iteration of the budget,
  or the value some iteration returned.
\<close>

lemma clean_loop_result:
  "clean_loop body maxiter i st = (rv, st') \<Longrightarrow> state_at body st0 i = Some st \<Longrightarrow>
   (rv = maxiter \<and> \<not> int i < maxiter \<and> st' = st) \<or>
   (rv = maxiter \<and> int i < maxiter \<and> state_at body st0 (nat maxiter) = Some st') \<or>
   (\<exists>n s. i \<le> n \<and> int n < maxiter \<and> state_at body st0 n = Some s \<and> body n s = Return rv st')"
proof (induction body maxiter i st rule: clean_loop.induct)
  case (1 body maxiter i st)
  show ?case
  proof (cases "int i < maxiter")
    case False
    with "1.prems"(1) show ?thesis
      by (subst (asm) clean_loop.simps) simp
  next
    case True
    show ?thesis
    proof (cases "body i st")
      case (Return r s)
      with True "1.prems" show ?thesis
        by (subst (asm) clean_loop.simps) auto
    next
      case (Next s)
      with True "1.prems"(1) have rec: "clean_loop body maxiter (Suc i) s = (rv, st')"
        by (subst (asm) clean_loop.simps) simp
      from Next "1.prems"(2) have at: "state_at body st0 (Suc i) = Some s" by simp
      from "1.IH" [OF True Next rec at] show ?thesis
      proof (elim disjE)
        assume a: "rv = maxiter \<and> \<not> int (Suc i) < maxiter \<and> st' = s"
        with True have "nat maxiter = Suc i" by linarith
        with a at True show ?thesis by simp
      next
        assume "rv = maxiter \<and> int (Suc i) < maxiter \<and>
          state_at body st0 (nat maxiter) = Some st'"
        with True show ?thesis by simp
      next
        assume "\<exists>n s. Suc i \<le> n \<and> int n < maxiter \<and> state_at body st0 n = Some s \<and>
          body n s = Return rv st'"
        then show ?thesis by (meson Suc_leD)
      qed
    qed
  qed
qed

text \<open>When iteration \<open>n\<close> of the budget is reached and returns, the loop returns its value.\<close>

lemma clean_loop_return_from:
  "state_at body st0 n = Some st \<Longrightarrow> body n st = Return rv st' \<Longrightarrow> int n < maxiter \<Longrightarrow>
   i \<le> n \<Longrightarrow> state_at body st0 i = Some sti \<Longrightarrow> clean_loop body maxiter i sti = (rv, st')"
proof (induction body maxiter i sti rule: clean_loop.induct)
  case (1 body maxiter i sti)
  from "1.prems"(3,4) have lt: "int i < maxiter" by linarith
  show ?case
  proof (cases "i = n")
    case True
    with "1.prems" lt show ?thesis
      by (subst clean_loop.simps) simp
  next
    case False
    with "1.prems"(4) have le: "Suc i \<le> n" by simp
    obtain s' where s': "state_at body st0 (Suc i) = Some s'"
      using state_at_None_mono [OF _ le, of body st0] "1.prems"(1)
      by (cases "state_at body st0 (Suc i)") auto
    with "1.prems"(5) have nx: "body i sti = Next s'"
      by (auto split: outcome.splits)
    from "1.IH" [OF lt nx "1.prems"(1,2,3) le s'] lt nx show ?thesis
      by (subst clean_loop.simps) simp
  qed
qed

lemma clean_loop_return:
  "state_at body st0 n = Some st \<Longrightarrow> body n st = Return rv st' \<Longrightarrow> int n < maxiter \<Longrightarrow>
   clean_loop body maxiter 0 st0 = (rv, st')"
  by (rule clean_loop_return_from [where i = 0 and n = n]) simp_all

lemma clean_loop_nonzero:
  assumes ret: "\<And>n s rv s'. body n s = Return rv s' \<Longrightarrow> P s \<and> (rv = int n \<or> rv = - int n)"
    and init: "\<not> P st0" and pos: "1 \<le> maxiter"
  shows "fst (clean_loop body maxiter 0 st0) \<noteq> 0"
proof -
  obtain rv st' where r: "clean_loop body maxiter 0 st0 = (rv, st')"
    by (cases "clean_loop body maxiter 0 st0")
  from clean_loop_result [OF r, of st0] have
    "rv = maxiter \<or>
     (\<exists>n s. int n < maxiter \<and> state_at body st0 n = Some s \<and> body n s = Return rv st')"
    by auto
  then show ?thesis
  proof
    assume "rv = maxiter"
    with pos r show ?thesis by simp
  next
    assume "\<exists>n s. int n < maxiter \<and> state_at body st0 n = Some s \<and> body n s = Return rv st'"
    then obtain n s where n: "state_at body st0 n = Some s" "body n s = Return rv st'"
      by blast
    from ret [OF n(2)] have P: "P s" and rv: "rv = int n \<or> rv = - int n" by auto
    have "n \<noteq> 0" using n(1) P init by (cases n) auto
    with rv r show ?thesis by auto
  qed
qed

text \<open>What an iteration can return: both checks start with \<^verbatim>\<open>score > 0\<close>.\<close>

lemma clean_1d_r_iter_Return:
  "clean_1d_r_iter rnd ker q gain tol i st = Return rv st' \<Longrightarrow>
   st_score st > 0 \<and> (rv = int i \<or> rv = - int i)"
  by (auto simp: clean_1d_r_iter_def Let_def split: prod.splits if_splits)

lemma clean_2d_r_iter_Return:
  "clean_2d_r_iter rnd ker q gain tol i st = Return rv st' \<Longrightarrow>
   st_score st > 0 \<and> (rv = int i \<or> rv = - int i)"
  by (auto simp: clean_2d_r_iter_def Let_def split: prod.splits if_splits)

lemma clean_1d_c_iter_Return:
  "clean_1d_c_iter rnd ker q gain tol i st = Return rv st' \<Longrightarrow>
   st_score st > 0 \<and> (rv = int i \<or> rv = - int i)"
  by (auto simp: clean_1d_c_iter_def Let_def split: prod.splits if_splits)

lemma clean_2d_c_iter_Return:
  "clean_2d_c_iter rnd ker q gain tol i st = Return rv st' \<Longrightarrow>
   st_score st > 0 \<and> rv = int i"
  by (auto simp: clean_2d_c_iter_def Let_def split: prod.splits if_splits)

lemma fst_clean_1d_r:
  "fst (clean_1d_r rnd res ker mdl gain maxiter tol) =
   fst (clean_loop (clean_1d_r_iter rnd ker (kernel_q_1d_r rnd ker (length res)) gain tol)
          maxiter 0 (init_state res mdl 0 0))"
  by (simp add: clean_1d_r_def Let_def split: prod.splits)

lemma fst_clean_2d_r:
  "fst (clean_2d_r rnd res ker mdl gain maxiter tol) =
   fst (clean_loop (clean_2d_r_iter rnd ker (kernel_q_2d_r rnd ker (DIM_0 res) (DIM_1 res)) gain tol)
          maxiter 0 (init_state res mdl 0 (0, 0)))"
  by (simp add: clean_2d_r_def Let_def split: prod.splits)

lemma fst_clean_1d_c:
  "fst (clean_1d_c rnd res ker mdl gain maxiter tol) =
   fst (clean_loop (clean_1d_c_iter rnd ker (kernel_q_1d_c rnd ker (length res)) gain tol)
          maxiter 0 (init_state res mdl (0, 0) 0))"
  by (simp add: clean_1d_c_def Let_def split: prod.splits)

lemma fst_clean_2d_c:
  "fst (clean_2d_c rnd res ker mdl gain maxiter tol) =
   fst (clean_loop (clean_2d_c_iter rnd ker (kernel_q_2d_c rnd ker (DIM_0 res) (DIM_1 res)) gain tol)
          maxiter 0 (init_state res mdl (0, 0) (0, 0)))"
  by (simp add: clean_2d_c_def Let_def split: prod.splits)

text \<open>
  A property of the initial state that every fall-through preserves holds at the start of
  every iteration.
\<close>

lemma state_at_inv:
  assumes init: "P st0" and step: "\<And>n s s'. P s \<Longrightarrow> body n s = Next s' \<Longrightarrow> P s'"
    and at: "state_at body st0 n = Some st"
  shows "P st"
  using at
proof (induction n arbitrary: st)
  case 0
  with init show ?case by simp
next
  case (Suc n)
  then obtain s where s: "state_at body st0 n = Some s" and nx: "body n s = Next st"
    by (auto split: option.splits outcome.splits)
  from step [OF Suc.IH [OF s] nx] show ?case .
qed


text \<open>
  An iteration that returns is not the first one, when returning needs what the initial
  state lacks.
\<close>

lemma iter_state_no_return_0:
  assumes "state_at body st0 i = Some st" and "body i st = Return rv st'"
    and ret: "\<And>n s rv s'. body n s = Return rv s' \<Longrightarrow> P s" and init: "\<not> P st0"
  shows "0 < i"
proof (cases i)
  case 0
  with assms(1) have "st = st0" by simp
  with ret [OF assms(2)] init show ?thesis by simp
qed simp

section \<open>Rounding\<close>

lemma round_even_of_int [simp]: "round_even (of_int k) = k"
  by (simp add: round_even_def)

text \<open>A number with a significand of at most \<open>p\<close> bits is not changed by rounding.\<close>

lemma fl_exact:
  assumes x: "x = of_int m * 2 powr of_int e" and m: "\<bar>m\<bar> < 2 ^ p"
  shows "fl p x = x"
proof (cases "m = 0")
  case True
  with x show ?thesis by (simp add: fl_def)
next
  case False
  then have x0: "x \<noteq> 0" using x by simp
  define k where "k = \<lfloor>log 2 \<bar>x\<bar>\<rfloor>"
  define E where "E = k - int p + 1"
  have absx: "\<bar>x\<bar> = of_int \<bar>m\<bar> * 2 powr of_int e"
    using x by (simp add: abs_mult)
  have "of_int \<bar>m\<bar> < (2::real) ^ p"
    using m by (metis of_int_less_iff of_int_numeral of_int_power)
  then have "\<bar>x\<bar> < 2 ^ p * 2 powr of_int e"
    unfolding absx by (simp add: mult_strict_right_mono)
  also have "\<dots> = 2 powr (of_int (int p + e))"
    by (simp add: powr_add powr_realpow)
  finally have "log 2 \<bar>x\<bar> < of_int (int p + e)"
    using x0 by (simp add: log_less_iff)
  then have "k < int p + e"
    unfolding k_def by (simp add: floor_less_iff)
  then have Ee: "E \<le> e" by (simp add: E_def)
  define d where "d = nat (e - E)"
  have e_eq: "e = E + int d" using Ee by (simp add: d_def)
  have "x / 2 powr of_int E = of_int m * 2 powr (of_int (int d))"
    unfolding x e_eq by (simp add: powr_add)
  also have "\<dots> = of_int (m * 2 ^ d)"
    by (simp add: powr_realpow)
  finally have q: "x / 2 powr of_int E = of_int (m * 2 ^ d)" .
  have "fl p x = of_int (round_even (x / 2 powr of_int E)) * 2 powr of_int E"
    using x0 by (simp add: fl_def k_def E_def Let_def)
  also have "\<dots> = x / 2 powr of_int E * 2 powr of_int E"
    unfolding q round_even_of_int by (simp only: q [symmetric])
  also have "\<dots> = x" by simp
  finally show ?thesis .
qed

lemma fl_int: "\<bar>m\<bar> < 2 ^ p \<Longrightarrow> fl p (of_int m) = of_int m"
  using fl_exact [of "of_int m" m 0 p] by simp

lemma fl_dyadic: "\<bar>m\<bar> < 2 ^ p \<Longrightarrow> fl p (of_int m / 2 ^ n) = of_int m / 2 ^ n"
  using fl_exact [of "of_int m / 2 ^ n" m "- int n" p]
  by (simp add: powr_minus powr_realpow divide_inverse)


lemma round_even_bounds:
  "m - 1 / 2 \<le> of_int (round_even m) \<and> of_int (round_even m) \<le> m + 1 / 2"
proof -
  define f where "f = \<lfloor>m\<rfloor>"
  have a: "of_int f \<le> m" "m < of_int f + 1"
    unfolding f_def by linarith+
  have "round_even m = f \<and> m - of_int f \<le> 1 / 2 \<or>
        round_even m = f + 1 \<and> m - of_int f \<ge> 1 / 2"
    unfolding round_even_def Let_def f_def [symmetric] by auto
  with a show ?thesis by auto
qed


text \<open>The relative error of rounding is at most \<open>2\<^sup>-\<^sup>p\<close>.\<close>

lemma fl_bounds:
  assumes x: "0 < x"
  shows "x * (1 - 1 / 2 ^ p) \<le> fl p x \<and> fl p x \<le> x * (1 + 1 / 2 ^ p)"
proof -
  define k where "k = \<lfloor>log 2 x\<rfloor>"
  define E where "E = k - int p + 1"
  define u :: real where "u = 2 powr of_int E"
  have u0: "0 < u" by (simp add: u_def)
  have "2 powr of_int k \<le> x"
    using x floor_log_eq_powr_iff [of x 2 k] by (simp add: k_def)
  moreover have "u = 2 powr of_int k * 2 / 2 ^ p"
    by (simp add: u_def E_def powr_add powr_diff powr_realpow)
  ultimately have ux: "u / 2 \<le> x / 2 ^ p"
    by (simp add: divide_right_mono)
  have f: "fl p x = of_int (round_even (x / u)) * u"
    using x by (simp add: fl_def k_def E_def u_def)
  from round_even_bounds [of "x / u"] u0
  have "(x / u - 1 / 2) * u \<le> of_int (round_even (x / u)) * u"
    "of_int (round_even (x / u)) * u \<le> (x / u + 1 / 2) * u"
    by (simp_all add: mult_right_mono)
  moreover have "(x / u - 1 / 2) * u = x - u / 2" "(x / u + 1 / 2) * u = x + u / 2"
    using u0 by (simp_all add: algebra_simps)
  ultimately have b: "x - u / 2 \<le> fl p x" "fl p x \<le> x + u / 2"
    unfolding f by simp_all
  have lo: "x - x / 2 ^ p \<le> fl p x" using b(1) ux by linarith
  have hi: "fl p x \<le> x + x / 2 ^ p" using b(2) ux by linarith
  have "x * (1 - 1 / 2 ^ p) = x - x / 2 ^ p" "x * (1 + 1 / 2 ^ p) = x + x / 2 ^ p"
    by (simp_all add: algebra_simps)
  with lo hi show ?thesis by (simp only:)
qed

text \<open>The definitions to unfold when a kernel is evaluated on concrete arrays.\<close>

lemmas eval_1d_r =
  iter_state_1d_r_def kernel_q_1d_r_def ker_peak_1d_r_def clean_1d_r_iter_def take_steps_1d_r_def
  undo_steps_1d_r_def undo_step_1d_r_def init_state_def rstep_def upt_rec Let_def

lemmas eval_2d_r =
  iter_state_2d_r_def kernel_q_2d_r_def ker_peak_2d_r_def clean_2d_r_iter_def take_steps_2d_r_def
  undo_steps_2d_r_def undo_step_2d_r_def init_state_def rstep_def upt_rec Let_def
  DIM_0_def DIM_1_def IND2_def set_IND2_def

lemmas eval_1d_c =
  iter_state_1d_c_def kernel_q_1d_c_def ker_peak_1d_c_def clean_1d_c_iter_def take_steps_1d_c_def
  undo_steps_1d_c_def undo_step_1d_c_def init_state_def cstep_def cmul_def cadd_def csub_def
  sqmod_def upt_rec Let_def

lemmas eval_2d_c =
  kernel_q_2d_c_def ker_peak_2d_c_def clean_2d_c_iter_def take_steps_2d_c_def
  undo_steps_2d_c_def undo_step_2d_c_def init_state_def cstep_def cmul_def cadd_def csub_def
  sqmod_def upt_rec Let_def DIM_0_def DIM_1_def IND2_def set_IND2_def

lemma sqrt_25_4: "sqrt (25 / 4) = 5 / 2"
  by (rule real_sqrt_unique) (simp_all add: power2_eq_square)

lemma sqrt_25: "sqrt 25 = 5"
  by (rule real_sqrt_unique) (simp_all add: power2_eq_square)

lemma sqrt_49: "sqrt 49 = 7"
  by (rule real_sqrt_unique) (simp_all add: power2_eq_square)

lemma sqrt_1_4: "sqrt (1 / 4) = 1 / 2"
  by (rule real_sqrt_unique) (simp_all add: power2_eq_square)

lemma sqrt_9_16: "sqrt (9 / 16) = 3 / 4"
  by (rule real_sqrt_unique) (simp_all add: power2_eq_square)

text \<open>Numbers that \<^verbatim>\<open>double\<close> represents exactly.\<close>

lemma float64_int: "\<bar>m\<bar> < 2 ^ 53 \<Longrightarrow> float64 (of_int m) = of_int m"
  by (simp add: float64_def fl_int)

lemma float64_dyadic: "\<bar>m\<bar> < 2 ^ 53 \<Longrightarrow> float64 (of_int m / 2 ^ n) = of_int m / 2 ^ n"
  by (simp add: float64_def fl_dyadic)

lemma float64_ints:
  "float64 0 = 0" "float64 1 = 1" "float64 2 = 2" "float64 3 = 3" "float64 4 = 4"
  "float64 5 = 5" "float64 7 = 7" "float64 9 = 9" "float64 16 = 16" "float64 25 = 25"
  "float64 49 = 49" "float64 50 = 50" "float64 98 = 98" "float64 (- 1) = - 1"
  "float64 (- 3) = - 3" "float64 (- 4) = - 4" "float64 (- 7) = - 7"
  using float64_int [of 0] float64_int [of 1] float64_int [of 2] float64_int [of 3]
    float64_int [of 4] float64_int [of 5] float64_int [of 7] float64_int [of 9]
    float64_int [of 16] float64_int [of 25] float64_int [of 49] float64_int [of 50]
    float64_int [of 98] float64_int [of "- 1"] float64_int [of "- 3"] float64_int [of "- 4"]
    float64_int [of "- 7"]
  by simp_all

lemma float64_fracs:
  "float64 (1 / 2) = 1 / 2" "float64 (1 / 4) = 1 / 4" "float64 (3 / 4) = 3 / 4"
  "float64 (9 / 4) = 9 / 4" "float64 (9 / 16) = 9 / 16" "float64 (5 / 4) = 5 / 4"
  "float64 (- (1 / 2)) = - (1 / 2)"
  using float64_dyadic [of 1 1] float64_dyadic [of 1 2] float64_dyadic [of 3 2]
    float64_dyadic [of 9 2] float64_dyadic [of 9 4] float64_dyadic [of 5 2]
    float64_dyadic [of "- 1" 1]
  by simp_all

lemma float64_two_fifths: "1 / 1000 \<le> float64 (2 / 5)"
  using fl_bounds [of "2 / 5" 53] by (simp add: float64_def)

subsection \<open>A run of the 2-D complex kernel that diverges at iteration 1\<close>

text \<open>
  The \<^verbatim>\<open>complex128\<close> arrays of shape (2,1) \<^verbatim>\<open>res = [[3-4j],[3+4j]]\<close>,
  \<^verbatim>\<open>ker = [[1],[-1j]]\<close>, \<^verbatim>\<open>mdl = 0\<close> with \<^verbatim>\<open>gain = 1\<close>. Iteration 0 scans (score 5),
  iteration 1 subtracts the peak and the score rises to 7.
\<close>

lemma div_q:
  "kernel_q_2d_c float64 [[(1, 0)], [(0, - 1)]] (DIM_0 [[(3::real, - 4::real)], [(3, 4)]])
     (DIM_1 [[(3::real, - 4::real)], [(3, 4)]]) = (1, 0)"
  by (simp add: eval_2d_c float64_ints)

lemma div_iter0:
  "clean_2d_c_iter float64 [[(1, 0)], [(0, - 1)]] (1, 0) 1 tol i
      (init_state [[(3, - 4)], [(3, 4)]] [[(0, 0)], [(0, 0)]] (0, 0) (0, 0)) =
    Next \<lparr>st_res = [[(3, - 4)], [(3, 4)]], st_mdl = [[(0, 0)], [(0, 0)]], st_score = 5,
           st_firstscore = 5, st_max = (3, - 4), st_argmax = (0, 0), st_nargmax = (0, 0)\<rparr>"
  by (simp add: eval_2d_c sqrt_25 float64_ints)

lemma div_iter1:
  "clean_2d_c_iter float64 [[(1, 0)], [(0, - 1)]] (1, 0) 1 tol i
      \<lparr>st_res = [[(3, - 4)], [(3, 4)]], st_mdl = [[(0, 0)], [(0, 0)]], st_score = 5,
           st_firstscore = 5, st_max = (3, - 4), st_argmax = (0, 0), st_nargmax = (0, 0)\<rparr> =
    Next \<lparr>st_res = [[(3, - 4)], [(3, 4)]], st_mdl = [[(0, 0)], [(0, 0)]], st_score = 7,
           st_firstscore = 5, st_max = (7, 7), st_argmax = (1, 0), st_nargmax = (1, 0)\<rparr>"
  by (simp add: eval_2d_c sqrt_49 float64_ints)

lemma div_iter2:
  "clean_2d_c_iter float64 [[(1, 0)], [(0, - 1)]] (1, 0) 1 (1 / 1000) i
      \<lparr>st_res = [[(3, - 4)], [(3, 4)]], st_mdl = [[(0, 0)], [(0, 0)]], st_score = 7,
           st_firstscore = 5, st_max = (7, 7), st_argmax = (1, 0), st_nargmax = (1, 0)\<rparr> =
    Next \<lparr>st_res = [[(- 4, 3)], [(- 4, - 3)]], st_mdl = [[(0, 0)], [(7, 7)]], st_score = 5,
           st_firstscore = 5, st_max = (- 4, - 3), st_argmax = (1, 0), st_nargmax = (1, 0)\<rparr>"
  using float64_two_fifths by (simp add: eval_2d_c sqrt_25 float64_ints)

lemma div_state1:
  "iter_state_2d_c float64 [[(3, - 4)], [(3, 4)]] [[(1, 0)], [(0, - 1)]] [[(0, 0)], [(0, 0)]]
      1 tol 1 =
    Some \<lparr>st_res = [[(3, - 4)], [(3, 4)]], st_mdl = [[(0, 0)], [(0, 0)]], st_score = 5,
           st_firstscore = 5, st_max = (3, - 4), st_argmax = (0, 0), st_nargmax = (0, 0)\<rparr>"
  unfolding iter_state_2d_c_def div_q
  by (simp only: One_nat_def state_at.simps div_iter0 option.case outcome.case)

lemma div_state2:
  "iter_state_2d_c float64 [[(3, - 4)], [(3, 4)]] [[(1, 0)], [(0, - 1)]] [[(0, 0)], [(0, 0)]]
      1 tol 2 =
    Some \<lparr>st_res = [[(3, - 4)], [(3, 4)]], st_mdl = [[(0, 0)], [(0, 0)]], st_score = 7,
           st_firstscore = 5, st_max = (7, 7), st_argmax = (1, 0), st_nargmax = (1, 0)\<rparr>"
  unfolding iter_state_2d_c_def div_q
  by (simp only: numeral_2_eq_2 state_at.simps div_iter0 div_iter1 option.case outcome.case)

subsection \<open>A run of the 2-D complex kernel that diverges and then converges\<close>

text \<open>
  The \<^verbatim>\<open>complex128\<close> arrays of shape (1,4) \<^verbatim>\<open>res = [[0,1,0,0]]\<close>,
  \<^verbatim>\<open>ker = [[1,-1,0.5,1]]\<close>, \<^verbatim>\<open>mdl = 0\<close> with \<^verbatim>\<open>gain = 1\<close>. Iteration 0 scans (score
  1/2), iteration 1 raises the score to 3/4, iteration 2 leaves it at 3/4.
\<close>

lemma conv_q:
  "kernel_q_2d_c float64 [[(1, 0), (- 1, 0), (1 / 2, 0), (1, 0)]]
     (DIM_0 [[(0::real, 0::real), (1, 0), (0, 0), (0, 0)]])
     (DIM_1 [[(0::real, 0::real), (1, 0), (0, 0), (0, 0)]]) = (1, 0)"
  by (simp add: eval_2d_c float64_ints float64_fracs)

lemma conv_iter0:
  "clean_2d_c_iter float64 [[(1, 0), (- 1, 0), (1 / 2, 0), (1, 0)]] (1, 0) 1 tol i
      (init_state [[(0, 0), (1, 0), (0, 0), (0, 0)]] [[(0, 0), (0, 0), (0, 0), (0, 0)]]
         (0, 0) (0, 0)) =
    Next \<lparr>st_res = [[(0, 0), (1, 0), (0, 0), (0, 0)]],
           st_mdl = [[(0, 0), (0, 0), (0, 0), (0, 0)]],
           st_score = 1 / 2, st_firstscore = 1 / 2, st_max = (1, 0), st_argmax = (0, 1),
           st_nargmax = (0, 1)\<rparr>"
  by (simp add: eval_2d_c sqrt_1_4 float64_ints float64_fracs)

lemma conv_iter1:
  "clean_2d_c_iter float64 [[(1, 0), (- 1, 0), (1 / 2, 0), (1, 0)]] (1, 0) 1 tol i
      \<lparr>st_res = [[(0, 0), (1, 0), (0, 0), (0, 0)]],
        st_mdl = [[(0, 0), (0, 0), (0, 0), (0, 0)]],
        st_score = 1 / 2, st_firstscore = 1 / 2, st_max = (1, 0), st_argmax = (0, 1),
        st_nargmax = (0, 1)\<rparr> =
    Next \<lparr>st_res = [[(0, 0), (1, 0), (0, 0), (0, 0)]],
           st_mdl = [[(0, 0), (0, 0), (0, 0), (0, 0)]],
           st_score = 3 / 4, st_firstscore = 1 / 2, st_max = (1, 0), st_argmax = (0, 2),
           st_nargmax = (0, 2)\<rparr>"
  by (simp add: eval_2d_c sqrt_9_16 float64_ints float64_fracs)

lemma conv_iter2:
  "clean_2d_c_iter float64 [[(1, 0), (- 1, 0), (1 / 2, 0), (1, 0)]] (1, 0) 1 (1 / 1000) i
      \<lparr>st_res = [[(0, 0), (1, 0), (0, 0), (0, 0)]],
        st_mdl = [[(0, 0), (0, 0), (0, 0), (0, 0)]],
        st_score = 3 / 4, st_firstscore = 1 / 2, st_max = (1, 0), st_argmax = (0, 2),
        st_nargmax = (0, 2)\<rparr> =
    Return (int i) \<lparr>st_res = [[(- (1 / 2), 0), (0, 0), (- 1, 0), (1, 0)]],
           st_mdl = [[(0, 0), (0, 0), (1, 0), (0, 0)]],
           st_score = 3 / 4, st_firstscore = 1 / 2, st_max = (- 1, 0), st_argmax = (0, 2),
           st_nargmax = (0, 2)\<rparr>"
  by (simp add: eval_2d_c sqrt_9_16 float64_ints float64_fracs)

lemma conv_state1:
  "iter_state_2d_c float64 [[(0, 0), (1, 0), (0, 0), (0, 0)]]
      [[(1, 0), (- 1, 0), (1 / 2, 0), (1, 0)]] [[(0, 0), (0, 0), (0, 0), (0, 0)]]
      1 tol 1 =
    Some \<lparr>st_res = [[(0, 0), (1, 0), (0, 0), (0, 0)]],
           st_mdl = [[(0, 0), (0, 0), (0, 0), (0, 0)]],
           st_score = 1 / 2, st_firstscore = 1 / 2, st_max = (1, 0), st_argmax = (0, 1),
           st_nargmax = (0, 1)\<rparr>"
  unfolding iter_state_2d_c_def conv_q
  by (simp only: One_nat_def state_at.simps conv_iter0 option.case outcome.case)

lemma conv_state2:
  "iter_state_2d_c float64 [[(0, 0), (1, 0), (0, 0), (0, 0)]]
      [[(1, 0), (- 1, 0), (1 / 2, 0), (1, 0)]] [[(0, 0), (0, 0), (0, 0), (0, 0)]]
      1 tol 2 =
    Some \<lparr>st_res = [[(0, 0), (1, 0), (0, 0), (0, 0)]],
           st_mdl = [[(0, 0), (0, 0), (0, 0), (0, 0)]],
           st_score = 3 / 4, st_firstscore = 1 / 2, st_max = (1, 0), st_argmax = (0, 2),
           st_nargmax = (0, 2)\<rparr>"
  unfolding iter_state_2d_c_def conv_q
  by (simp only: numeral_2_eq_2 state_at.simps conv_iter0 conv_iter1 option.case outcome.case)

lemma conv_run:
  "clean_2d_c float64 [[(0, 0), (1, 0), (0, 0), (0, 0)]]
      [[(1, 0), (- 1, 0), (1 / 2, 0), (1, 0)]] [[(0, 0), (0, 0), (0, 0), (0, 0)]]
      1 200 (1 / 1000) =
    (2, [[(- (1 / 2), 0), (0, 0), (- 1, 0), (1, 0)]], [[(0, 0), (0, 0), (1, 0), (0, 0)]])"
  unfolding clean_2d_c_def conv_q
  using clean_loop_return [OF conv_state2 [unfolded iter_state_2d_c_def conv_q] conv_iter2, of 200]
  by simp

section \<open>The step and undo loops\<close>


lemma length_fold_upd [simp]: "length (fold (upd_at w h) ns xs) = length xs"
  by (induction ns arbitrary: xs) (simp_all add: upd_at_def)

lemma fold_upd_other:
  "j \<notin> w ` set ns \<Longrightarrow> fold (upd_at w h) ns xs ! j = xs ! j"
  by (induction ns arbitrary: xs) (auto simp: upd_at_def)

lemma fold_upd_nth:
  "distinct ns \<Longrightarrow> inj_on w (set ns) \<Longrightarrow> n \<in> set ns \<Longrightarrow> w n < length xs \<Longrightarrow>
   fold (upd_at w h) ns xs ! w n = h n (xs ! w n)"
proof (induction ns arbitrary: xs)
  case Nil
  then show ?case by simp
next
  case (Cons m ns)
  show ?case
  proof (cases "n = m")
    case True
    with Cons.prems have "w m \<notin> w ` set ns"
      by (auto simp: inj_on_def)
    with True Cons.prems(4) show ?thesis
      by (simp add: fold_upd_other) (simp add: upd_at_def)
  next
    case False
    with Cons.prems have n: "n \<in> set ns" and ne: "w m \<noteq> w n"
      by (auto simp: inj_on_def)
    from Cons.prems have "distinct ns" "inj_on w (set ns)" by (auto simp: inj_on_def)
    from Cons.IH [OF this n, of "upd_at w h m xs"] Cons.prems(4) ne show ?thesis
      by (simp add: upd_at_def)
  qed
qed


lemma wrap_eq_le:
  assumes e: "(x + a) mod d = (y + a) mod d" and le: "x \<le> y" and y: "y < (d::nat)"
  shows "x = y"
proof -
  from le have "x + a \<le> y + a" by simp
  from mod_eq_dvd_iff_nat [OF this, of d] e have "d dvd (y + a) - (x + a)" by metis
  then have dv: "d dvd y - x" by simp
  have "y - x < d" using y by simp
  with dv have "y - x = 0" using nat_dvd_not_less [of "y - x" d] by auto
  with le show ?thesis by simp
qed

lemma wrap_inj: "inj_on (\<lambda>n. (n + a) mod d) {0..<d::nat}"
proof (rule inj_onI)
  fix x y assume x: "x \<in> {0..<d}" and y: "y \<in> {0..<d}"
    and e: "(x + a) mod d = (y + a) mod d"
  from x y have xd: "x < d" and yd: "y < d" by simp_all
  show "x = y"
  proof (cases "x \<le> y")
    case True
    from e True yd show ?thesis by (rule wrap_eq_le)
  next
    case False
    then have "y \<le> x" by simp
    with e [symmetric] have "y = x" using xd by (rule wrap_eq_le)
    then show ?thesis by simp
  qed
qed

text \<open>The residual component of the step loops.\<close>

lemma take_step_1d_r_fst:
  "fst (fold (take_step_1d_r rnd ker d a step) ns acc) =
   fold (upd_at (\<lambda>n. (n + a) mod d) (\<lambda>n v. rnd (v - rnd (ker ! n * step)))) ns (fst acc)"
proof (induction ns arbitrary: acc)
  case Nil
  show ?case by simp
next
  case (Cons n ns)
  obtain res nscore mmax mx nargmax where acc: "acc = (res, nscore, mmax, mx, nargmax)"
    by (cases acc) auto
  show ?case
    unfolding acc by (simp add: Cons.IH Let_def upd_at_def)
qed

lemma undo_step_1d_r_upd:
  "undo_step_1d_r rnd ker d a step =
   upd_at (\<lambda>n. (n + a) mod d) (\<lambda>n v. rnd (v + rnd (ker ! n * step)))"
  by (intro ext) (simp add: undo_step_1d_r_def upd_at_def Let_def)

lemma take_step_1d_c_fst:
  "fst (fold (take_step_1d_c rnd ker d a step) ns acc) =
   fold (upd_at (\<lambda>n. (n + a) mod d) (\<lambda>n v. csub rnd v (cmul rnd (ker ! n) step))) ns (fst acc)"
proof (induction ns arbitrary: acc)
  case Nil
  show ?case by simp
next
  case (Cons n ns)
  obtain res nscore mmax mx nargmax where acc: "acc = (res, nscore, mmax, mx, nargmax)"
    by (cases acc) auto
  show ?case
    unfolding acc by (simp add: Cons.IH Let_def upd_at_def)
qed

lemma undo_step_1d_c_upd:
  "undo_step_1d_c rnd ker d a step =
   upd_at (\<lambda>n. (n + a) mod d) (\<lambda>n v. cadd rnd v (cmul rnd (ker ! n) step))"
  by (intro ext) (simp add: undo_step_1d_c_def upd_at_def Let_def)

text \<open>A loop over the second index of a 2-D array works on one row.\<close>

lemma fold_set_IND2_row:
  assumes f: "\<And>n res. f n res = set_IND2 res i (w n) (h n (IND2 res i (w n)))"
  shows "fold f ns res = res[i := fold (upd_at w h) ns (res ! i)]"
proof (cases "i < length res")
  case False
  have "fold f ns res = res"
    using False by (induction ns) (simp_all add: f set_IND2_def list_update_beyond)
  with False show ?thesis by (simp add: list_update_beyond)
next
  case True
  then show ?thesis
  proof (induction ns arbitrary: res)
    case Nil
    then show ?case by simp
  next
    case (Cons n ns)
    have "fold f (n # ns) res = fold f ns (res[i := upd_at w h n (res ! i)])"
      by (simp add: f set_IND2_def IND2_def upd_at_def)
    also have "\<dots> = (res[i := upd_at w h n (res ! i)])
        [i := fold (upd_at w h) ns (res[i := upd_at w h n (res ! i)] ! i)]"
      using Cons.prems by (intro Cons.IH) simp
    also have "\<dots> = res[i := fold (upd_at w h) (n # ns) (res ! i)]"
      using Cons.prems by simp
    finally show ?case .
  qed
qed

lemma take_step_2d_r_fst:
  "fst (fold (take_step_2d_r rnd ker d2 a2 step w1 n1) ns acc) =
   fold (\<lambda>n res. set_IND2 res w1 ((n + a2) mod d2)
           (rnd (IND2 res w1 ((n + a2) mod d2) - rnd (IND2 ker n1 n * step)))) ns (fst acc)"
proof (induction ns arbitrary: acc)
  case Nil
  show ?case by simp
next
  case (Cons n ns)
  obtain res nscore mmax mx nargmax where acc: "acc = (res, nscore, mmax, mx, nargmax)"
    by (cases acc) auto
  show ?case
    unfolding acc by (simp add: Cons.IH Let_def)
qed

lemma take_step_2d_r_row:
  "fst (fold (take_step_2d_r rnd ker d2 a2 step w1 n1) ns acc) =
   (fst acc)[w1 := fold (upd_at (\<lambda>n2. (n2 + a2) mod d2)
                          (\<lambda>n2 v. rnd (v - rnd (IND2 ker n1 n2 * step)))) ns (fst acc ! w1)]"
  unfolding take_step_2d_r_fst by (rule fold_set_IND2_row) simp

lemma take_steps_2d_r_fst:
  "fst (take_steps_2d_r rnd ker d1 d2 a1 a2 step acc) =
   fold (upd_at (\<lambda>n1. (n1 + a1) mod d1)
          (\<lambda>n1. fold (upd_at (\<lambda>n2. (n2 + a2) mod d2)
                        (\<lambda>n2 v. rnd (v - rnd (IND2 ker n1 n2 * step)))) [0..<d2]))
     [0..<d1] (fst acc)"
proof -
  have "fst (fold (\<lambda>n1. fold (take_step_2d_r rnd ker d2 a2 step ((n1 + a1) mod d1) n1) [0..<d2])
          ns acc) =
   fold (upd_at (\<lambda>n1. (n1 + a1) mod d1)
          (\<lambda>n1. fold (upd_at (\<lambda>n2. (n2 + a2) mod d2)
                        (\<lambda>n2 v. rnd (v - rnd (IND2 ker n1 n2 * step)))) [0..<d2]))
     ns (fst acc)" for ns
  proof (induction ns arbitrary: acc)
    case Nil
    show ?case by simp
  next
    case (Cons n ns)
    let ?T = "fold (take_step_2d_r rnd ker d2 a2 step ((n + a1) mod d1) n) [0..<d2] acc"
    let ?U = "upd_at (\<lambda>n1. (n1 + a1) mod d1)
          (\<lambda>n1. fold (upd_at (\<lambda>n2. (n2 + a2) mod d2)
                        (\<lambda>n2 v. rnd (v - rnd (IND2 ker n1 n2 * step)))) [0..<d2])"
    have row: "fst ?T = ?U n (fst acc)"
      unfolding take_step_2d_r_row upd_at_def [of "\<lambda>n1. (n1 + a1) mod d1"] ..
    have "fst (fold (\<lambda>n1. fold (take_step_2d_r rnd ker d2 a2 step ((n1 + a1) mod d1) n1) [0..<d2])
          (n # ns) acc) = fold ?U ns (fst ?T)"
      by (simp add: Cons.IH)
    also have "\<dots> = fold ?U (n # ns) (fst acc)"
      unfolding row by simp
    finally show ?case .
  qed
  then show ?thesis by (simp add: take_steps_2d_r_def Let_def)
qed

lemma undo_steps_2d_r_upd:
  "undo_steps_2d_r rnd ker d1 d2 a1 a2 step res =
   fold (upd_at (\<lambda>n1. (n1 + a1) mod d1)
          (\<lambda>n1. fold (upd_at (\<lambda>n2. (n2 + a2) mod d2)
                        (\<lambda>n2 v. rnd (v + rnd (IND2 ker n1 n2 * step)))) [0..<d2]))
     [0..<d1] res"
proof -
  have row: "fold (undo_step_2d_r rnd ker d2 a2 step w1 n1) ns r =
    r[w1 := fold (upd_at (\<lambda>n2. (n2 + a2) mod d2)
                          (\<lambda>n2 v. rnd (v + rnd (IND2 ker n1 n2 * step)))) ns (r ! w1)]"
    for w1 n1 ns r
    by (rule fold_set_IND2_row) (simp add: undo_step_2d_r_def Let_def)
  have "fold (\<lambda>n1. fold (undo_step_2d_r rnd ker d2 a2 step ((n1 + a1) mod d1) n1) [0..<d2]) ns r =
   fold (upd_at (\<lambda>n1. (n1 + a1) mod d1)
          (\<lambda>n1. fold (upd_at (\<lambda>n2. (n2 + a2) mod d2)
                        (\<lambda>n2 v. rnd (v + rnd (IND2 ker n1 n2 * step)))) [0..<d2]))
     ns r" for ns r
  proof (induction ns arbitrary: r)
    case Nil
    show ?case by simp
  next
    case (Cons n ns)
    let ?U = "upd_at (\<lambda>n1. (n1 + a1) mod d1)
          (\<lambda>n1. fold (upd_at (\<lambda>n2. (n2 + a2) mod d2)
                        (\<lambda>n2 v. rnd (v + rnd (IND2 ker n1 n2 * step)))) [0..<d2])"
    have r: "fold (undo_step_2d_r rnd ker d2 a2 step ((n + a1) mod d1) n) [0..<d2] r = ?U n r"
      unfolding row upd_at_def [of "\<lambda>n1. (n1 + a1) mod d1"] ..
    show ?case
      by (simp add: Cons.IH r)
  qed
  then show ?thesis by (simp add: undo_steps_2d_r_def Let_def)
qed

lemma take_step_2d_c_row:
  "fst (fold (take_step_2d_c rnd ker d2 a2 step w1 n1) ns acc) =
   (fst acc)[w1 := fold (upd_at (\<lambda>n2. (n2 + a2) mod d2)
                          (\<lambda>n2 v. csub rnd v (cmul rnd (IND2 ker n1 n2) step))) ns (fst acc ! w1)]"
proof -
  have "fst (fold (take_step_2d_c rnd ker d2 a2 step w1 n1) ns acc) =
   fold (\<lambda>n res. set_IND2 res w1 ((n + a2) mod d2)
           (csub rnd (IND2 res w1 ((n + a2) mod d2)) (cmul rnd (IND2 ker n1 n) step))) ns (fst acc)"
  proof (induction ns arbitrary: acc)
    case Nil
    show ?case by simp
  next
    case (Cons n ns)
    obtain res nscore mmax mx nargmax where acc: "acc = (res, nscore, mmax, mx, nargmax)"
      by (cases acc) auto
    show ?case
      unfolding acc by (simp add: Cons.IH Let_def)
  qed
  also have "\<dots> = (fst acc)[w1 := fold (upd_at (\<lambda>n2. (n2 + a2) mod d2)
                          (\<lambda>n2 v. csub rnd v (cmul rnd (IND2 ker n1 n2) step))) ns (fst acc ! w1)]"
    by (rule fold_set_IND2_row) simp
  finally show ?thesis .
qed

lemma take_steps_2d_c_fst:
  "fst (take_steps_2d_c rnd ker d1 d2 a1 a2 step acc) =
   fold (upd_at (\<lambda>n1. (n1 + a1) mod d1)
          (\<lambda>n1. fold (upd_at (\<lambda>n2. (n2 + a2) mod d2)
                        (\<lambda>n2 v. csub rnd v (cmul rnd (IND2 ker n1 n2) step))) [0..<d2]))
     [0..<d1] (fst acc)"
proof -
  have "fst (fold (\<lambda>n1. fold (take_step_2d_c rnd ker d2 a2 step ((n1 + a1) mod d1) n1) [0..<d2])
          ns acc) =
   fold (upd_at (\<lambda>n1. (n1 + a1) mod d1)
          (\<lambda>n1. fold (upd_at (\<lambda>n2. (n2 + a2) mod d2)
                        (\<lambda>n2 v. csub rnd v (cmul rnd (IND2 ker n1 n2) step))) [0..<d2]))
     ns (fst acc)" for ns
  proof (induction ns arbitrary: acc)
    case Nil
    show ?case by simp
  next
    case (Cons n ns)
    let ?T = "fold (take_step_2d_c rnd ker d2 a2 step ((n + a1) mod d1) n) [0..<d2] acc"
    let ?U = "upd_at (\<lambda>n1. (n1 + a1) mod d1)
          (\<lambda>n1. fold (upd_at (\<lambda>n2. (n2 + a2) mod d2)
                        (\<lambda>n2 v. csub rnd v (cmul rnd (IND2 ker n1 n2) step))) [0..<d2])"
    have row: "fst ?T = ?U n (fst acc)"
      unfolding take_step_2d_c_row upd_at_def [of "\<lambda>n1. (n1 + a1) mod d1"] ..
    have "fst (fold (\<lambda>n1. fold (take_step_2d_c rnd ker d2 a2 step ((n1 + a1) mod d1) n1) [0..<d2])
          (n # ns) acc) = fold ?U ns (fst ?T)"
      by (simp add: Cons.IH)
    also have "\<dots> = fold ?U (n # ns) (fst acc)"
      unfolding row by simp
    finally show ?case .
  qed
  then show ?thesis by (simp add: take_steps_2d_c_def Let_def)
qed

lemma wrap_less: "n < d \<Longrightarrow> (n + a) mod d < (d::nat)"
proof -
  assume "n < d"
  then have "0 < d" by arith
  then show ?thesis by (rule mod_less_divisor)
qed

text \<open>What the step loops leave at the wrapped index of each kernel offset.\<close>

lemma take_steps_1d_r_nth:
  assumes n: "n < length res"
  shows "(n + a) mod length res < length res"
    and "fst (take_steps_1d_r rnd ker (length res) a step (res, ns, mm, mx, na)) !
           ((n + a) mod length res) =
         rnd (res ! ((n + a) mod length res) - rnd (ker ! n * step))"
proof -
  from n show w: "(n + a) mod length res < length res" by (rule wrap_less)
  show "fst (take_steps_1d_r rnd ker (length res) a step (res, ns, mm, mx, na)) !
           ((n + a) mod length res) =
         rnd (res ! ((n + a) mod length res) - rnd (ker ! n * step))"
    unfolding take_steps_1d_r_def take_step_1d_r_fst
    using fold_upd_nth [of "[0..<length res]" "\<lambda>n. (n + a) mod length res" n res
        "\<lambda>n v. rnd (v - rnd (ker ! n * step))"] n w
    by (simp add: wrap_inj)
qed

lemma take_steps_1d_c_nth:
  assumes n: "n < length res"
  shows "(n + a) mod length res < length res"
    and "fst (take_steps_1d_c rnd ker (length res) a step (res, ns, mm, mx, na)) !
           ((n + a) mod length res) =
         csub rnd (res ! ((n + a) mod length res)) (cmul rnd (ker ! n) step)"
proof -
  from n show w: "(n + a) mod length res < length res" by (rule wrap_less)
  show "fst (take_steps_1d_c rnd ker (length res) a step (res, ns, mm, mx, na)) !
           ((n + a) mod length res) =
         csub rnd (res ! ((n + a) mod length res)) (cmul rnd (ker ! n) step)"
    unfolding take_steps_1d_c_def take_step_1d_c_fst
    using fold_upd_nth [of "[0..<length res]" "\<lambda>n. (n + a) mod length res" n res
        "\<lambda>n v. csub rnd v (cmul rnd (ker ! n) step)"] n w
    by (simp add: wrap_inj)
qed

lemma fold_upd_2d_nth:
  assumes rect: "\<forall>row \<in> set res. length row = d2"
    and n1: "n1 < length res" and n2: "n2 < d2"
  shows "fold (upd_at (\<lambda>n1. (n1 + a1) mod length res)
          (\<lambda>n1. fold (upd_at (\<lambda>n2. (n2 + a2) mod d2) (h n1)) [0..<d2]))
     [0..<length res] res ! ((n1 + a1) mod length res) ! ((n2 + a2) mod d2) =
     h n1 n2 (res ! ((n1 + a1) mod length res) ! ((n2 + a2) mod d2))"
proof -
  let ?w1 = "(n1 + a1) mod length res" and ?w2 = "(n2 + a2) mod d2"
  from n1 have w1: "?w1 < length res" by (rule wrap_less)
  from n2 have w2: "?w2 < d2" by (rule wrap_less)
  from rect w1 have len: "length (res ! ?w1) = d2" by simp
  have "fold (upd_at (\<lambda>n1. (n1 + a1) mod length res)
          (\<lambda>n1. fold (upd_at (\<lambda>n2. (n2 + a2) mod d2) (h n1)) [0..<d2]))
     [0..<length res] res ! ?w1 =
     fold (upd_at (\<lambda>n2. (n2 + a2) mod d2) (h n1)) [0..<d2] (res ! ?w1)"
    using fold_upd_nth [of "[0..<length res]" "\<lambda>n1. (n1 + a1) mod length res" n1 res
        "\<lambda>n1. fold (upd_at (\<lambda>n2. (n2 + a2) mod d2) (h n1)) [0..<d2]"] n1 w1
    by (simp add: wrap_inj)
  moreover have "fold (upd_at (\<lambda>n2. (n2 + a2) mod d2) (h n1)) [0..<d2] (res ! ?w1) ! ?w2 =
     h n1 n2 (res ! ?w1 ! ?w2)"
    using fold_upd_nth [of "[0..<d2]" "\<lambda>n2. (n2 + a2) mod d2" n2 "res ! ?w1" "h n1"] n2 w2 len
    by (simp add: wrap_inj)
  ultimately show ?thesis by simp
qed

lemma take_steps_2d_r_nth:
  assumes rect: "\<forall>row \<in> set res. length row = DIM_1 res"
    and n1: "n1 < DIM_0 res" and n2: "n2 < DIM_1 res"
  shows "IND2 (fst (take_steps_2d_r rnd ker (DIM_0 res) (DIM_1 res) a1 a2 step (res, ns, mm, mx, na)))
           ((n1 + a1) mod DIM_0 res) ((n2 + a2) mod DIM_1 res) =
         rnd (IND2 res ((n1 + a1) mod DIM_0 res) ((n2 + a2) mod DIM_1 res) -
              rnd (IND2 ker n1 n2 * step))"
  unfolding take_steps_2d_r_fst IND2_def DIM_0_def fst_conv
  using fold_upd_2d_nth [OF rect n1 [unfolded DIM_0_def] n2,
      of a1 a2 "\<lambda>n1 n2 v. rnd (v - rnd (ker ! n1 ! n2 * step))"]
  by simp

lemma take_steps_2d_c_nth:
  assumes rect: "\<forall>row \<in> set res. length row = DIM_1 res"
    and n1: "n1 < DIM_0 res" and n2: "n2 < DIM_1 res"
  shows "IND2 (fst (take_steps_2d_c rnd ker (DIM_0 res) (DIM_1 res) a1 a2 step (res, ns, mm, mx, na)))
           ((n1 + a1) mod DIM_0 res) ((n2 + a2) mod DIM_1 res) =
         csub rnd (IND2 res ((n1 + a1) mod DIM_0 res) ((n2 + a2) mod DIM_1 res))
              (cmul rnd (IND2 ker n1 n2) step)"
  unfolding take_steps_2d_c_fst IND2_def DIM_0_def fst_conv
  using fold_upd_2d_nth [OF rect n1 [unfolded DIM_0_def] n2,
      of a1 a2 "\<lambda>n1 n2 v. csub rnd v (cmul rnd (ker ! n1 ! n2) step)"]
  by simp

lemma fold_upd_map_length:
  assumes H: "\<And>n row. length (H n row) = length row"
  shows "map length (fold (upd_at w H) ns xs) = map length xs"
proof (induction ns arbitrary: xs)
  case Nil
  show ?case by simp
next
  case (Cons n ns)
  have "map length (upd_at w H n xs) = map length xs"
  proof (cases "w n < length xs")
    case True
    then have "(map length xs)[w n := length (xs ! w n)] = map length xs"
      by (metis list_update_id nth_map)
    then show ?thesis by (simp add: upd_at_def map_update H)
  next
    case False
    then show ?thesis by (simp add: upd_at_def list_update_beyond)
  qed
  with Cons.IH [of "upd_at w H n xs"] show ?case by simp
qed

lemma take_steps_2d_r_shape:
  "map length (fst (take_steps_2d_r rnd ker d1 d2 a1 a2 step acc)) = map length (fst acc)"
  unfolding take_steps_2d_r_fst by (rule fold_upd_map_length) simp

lemma take_steps_2d_c_shape:
  "map length (fst (take_steps_2d_c rnd ker d1 d2 a1 a2 step acc)) = map length (fst acc)"
  unfolding take_steps_2d_c_fst by (rule fold_upd_map_length) simp

lemma take_steps_1d_r_length:
  "length (fst (take_steps_1d_r rnd ker d a step acc)) = length (fst acc)"
  unfolding take_steps_1d_r_def take_step_1d_r_fst by simp

lemma take_steps_1d_c_length:
  "length (fst (take_steps_1d_c rnd ker d a step acc)) = length (fst acc)"
  unfolding take_steps_1d_c_def take_step_1d_c_fst by simp

lemma cmul_exact:
  "(case csub (\<lambda>x. x) (xr, xi) (cmul (\<lambda>x. x) (kr, ki) (sr, si)) of (re, im) \<Rightarrow> Complex re im) =
   Complex xr xi - Complex kr ki * Complex sr si"
  by (simp add: csub_def cmul_def complex_eq_iff)




lemma undo_steps_2d_c_upd:
  "undo_steps_2d_c rnd ker d1 d2 a1 a2 step res =
   fold (upd_at (\<lambda>n1. (n1 + a1) mod d1)
          (\<lambda>n1. fold (upd_at (\<lambda>n2. (n2 + a2) mod d2)
                        (\<lambda>n2 v. cadd rnd v (cmul rnd (IND2 ker n1 n2) step))) [0..<d2]))
     [0..<d1] res"
proof -
  have row: "fold (undo_step_2d_c rnd ker d2 a2 step w1 n1) ns r =
    r[w1 := fold (upd_at (\<lambda>n2. (n2 + a2) mod d2)
                          (\<lambda>n2 v. cadd rnd v (cmul rnd (IND2 ker n1 n2) step))) ns (r ! w1)]"
    for w1 n1 ns r
    by (rule fold_set_IND2_row) (simp add: undo_step_2d_c_def Let_def)
  have "fold (\<lambda>n1. fold (undo_step_2d_c rnd ker d2 a2 step ((n1 + a1) mod d1) n1) [0..<d2]) ns r =
   fold (upd_at (\<lambda>n1. (n1 + a1) mod d1)
          (\<lambda>n1. fold (upd_at (\<lambda>n2. (n2 + a2) mod d2)
                        (\<lambda>n2 v. cadd rnd v (cmul rnd (IND2 ker n1 n2) step))) [0..<d2]))
     ns r" for ns r
  proof (induction ns arbitrary: r)
    case Nil
    show ?case by simp
  next
    case (Cons n ns)
    let ?U = "upd_at (\<lambda>n1. (n1 + a1) mod d1)
          (\<lambda>n1. fold (upd_at (\<lambda>n2. (n2 + a2) mod d2)
                        (\<lambda>n2 v. cadd rnd v (cmul rnd (IND2 ker n1 n2) step))) [0..<d2])"
    have r: "fold (undo_step_2d_c rnd ker d2 a2 step ((n + a1) mod d1) n) [0..<d2] r = ?U n r"
      unfolding row upd_at_def [of "\<lambda>n1. (n1 + a1) mod d1"] ..
    show ?case
      by (simp add: Cons.IH r)
  qed
  then show ?thesis by (simp add: undo_steps_2d_c_def Let_def)
qed

text \<open>
  As long as the sum does not overflow, the source's \<^verbatim>\<open>int\<close> expression is the wrapped
  index of the kernels above.
\<close>

lemma wrap_index_nat:
  assumes "n + a < 2 ^ 31"
  shows "wrap_index (int n) (int a) (int d) = int ((n + a) mod d)"
proof -
  from assms have b: "int n + int a < 2 ^ 31" by (simp flip: of_nat_add)
  have nn: "0 \<le> int n + int a" by simp
  from b nn have "(int n + int a + 2 ^ 31) mod 2 ^ 32 = int n + int a + 2 ^ 31"
    by (intro mod_pos_pos_trivial) simp_all
  then have "int32 (int n + int a) = int n + int a" by (simp add: int32_def)
  then show ?thesis
    by (simp add: wrap_index_def c_rem_def zmod_int)
qed

subsection \<open>1-D real: what an iteration leaves\<close>

text \<open>The position of the running peak stays inside the array.\<close>

lemma take_step_1d_r_nargmax:
  "0 < d \<Longrightarrow> snd (snd (snd (snd acc))) < d \<Longrightarrow>
   snd (snd (snd (snd (fold (take_step_1d_r rnd ker d a step) ns acc)))) < d"
proof (induction ns arbitrary: acc)
  case Nil
  then show ?case by simp
next
  case (Cons n ns)
  obtain res nscore mmax mx nargmax where acc: "acc = (res, nscore, mmax, mx, nargmax)"
    by (cases acc) auto
  have "snd (snd (snd (snd (take_step_1d_r rnd ker d a step n acc)))) < d"
    using Cons.prems unfolding acc by (simp add: Let_def)
  from Cons.IH [OF Cons.prems(1) this] show ?case by simp
qed

lemma undo_steps_1d_r_length:
  "length (undo_steps_1d_r rnd ker d a step res) = length res"
  unfolding undo_steps_1d_r_def undo_step_1d_r_upd by simp

lemma undo_take_1d_r_nth:
  assumes n: "n < length res"
  shows "undo_steps_1d_r rnd ker (length res) a step
           (fst (take_steps_1d_r rnd ker (length res) a step (res, ns, mm, mx, na))) !
           ((n + a) mod length res) =
         rnd (rnd (res ! ((n + a) mod length res) - rnd (ker ! n * step)) + rnd (ker ! n * step))"
proof -
  let ?T = "fst (take_steps_1d_r rnd ker (length res) a step (res, ns, mm, mx, na))"
  from n have w: "(n + a) mod length res < length res" by (rule wrap_less)
  have len: "length ?T = length res" by (simp add: take_steps_1d_r_length)
  have "undo_steps_1d_r rnd ker (length res) a step ?T ! ((n + a) mod length res) =
        rnd (?T ! ((n + a) mod length res) + rnd (ker ! n * step))"
    unfolding undo_steps_1d_r_def undo_step_1d_r_upd
    using fold_upd_nth [of "[0..<length res]" "\<lambda>n. (n + a) mod length res" n ?T
        "\<lambda>n v. rnd (v + rnd (ker ! n * step))"] n w len
    by (simp add: wrap_inj)
  with take_steps_1d_r_nth(2) [OF n, of rnd ker a step ns mm mx na] show ?thesis by simp
qed


lemma mdl_round_trip_1d:
  "mdl[a := rnd ((mdl[a := v]) ! a - (s::real))] = mdl[a := rnd (v - s)]"
  by (cases "a < length mdl") (simp_all add: list_update_beyond)

text \<open>What an iteration leaves, by the branch it takes.\<close>

lemma clean_1d_r_iter_Next:
  assumes "clean_1d_r_iter rnd ker q gain tol i st = Next st'"
  shows "st_res st' = fst (take_steps_1d_r rnd ker (length (st_res st)) (st_argmax st)
            (rstep rnd gain (st_max st) q) (st_res st, 0, - 1, st_max st, st_nargmax st))"
    and "st_argmax st' = snd (snd (snd (snd (take_steps_1d_r rnd ker (length (st_res st))
            (st_argmax st) (rstep rnd gain (st_max st) q)
            (st_res st, 0, - 1, st_max st, st_nargmax st)))))"
    and "st_nargmax st' = st_argmax st'"
proof -
  obtain res sumsq mmax mx nargmax where t:
    "take_steps_1d_r rnd ker (length (st_res st)) (st_argmax st)
       (rstep rnd gain (st_max st) q) (st_res st, 0, - 1, st_max st, st_nargmax st) =
     (res, sumsq, mmax, mx, nargmax)"
    by (metis prod_cases5)
  from assms show "st_res st' = fst (take_steps_1d_r rnd ker (length (st_res st)) (st_argmax st)
            (rstep rnd gain (st_max st) q) (st_res st, 0, - 1, st_max st, st_nargmax st))"
    and "st_argmax st' = snd (snd (snd (snd (take_steps_1d_r rnd ker (length (st_res st))
            (st_argmax st) (rstep rnd gain (st_max st) q)
            (st_res st, 0, - 1, st_max st, st_nargmax st)))))"
    and "st_nargmax st' = st_argmax st'"
    by (auto simp: clean_1d_r_iter_def Let_def t split: if_splits)
qed

lemma clean_1d_r_iter_Return_cases:
  assumes "clean_1d_r_iter rnd ker q gain tol i st = Return rv st'"
  shows "0 < st_score st \<and>
    (rv = - int i \<and>
     st_res st' = undo_steps_1d_r rnd ker (length (st_res st)) (st_argmax st)
        (rstep rnd gain (st_max st) q)
        (fst (take_steps_1d_r rnd ker (length (st_res st)) (st_argmax st)
            (rstep rnd gain (st_max st) q) (st_res st, 0, - 1, st_max st, st_nargmax st))) \<and>
     st_mdl st' = (st_mdl st)[st_argmax st :=
        rnd (rnd (st_mdl st ! st_argmax st + rstep rnd gain (st_max st) q) -
             rstep rnd gain (st_max st) q)] \<or>
     rv = int i \<and>
     st_res st' = fst (take_steps_1d_r rnd ker (length (st_res st)) (st_argmax st)
            (rstep rnd gain (st_max st) q) (st_res st, 0, - 1, st_max st, st_nargmax st)))"
proof -
  obtain res sumsq mmax mx nargmax where t:
    "take_steps_1d_r rnd ker (length (st_res st)) (st_argmax st)
       (rstep rnd gain (st_max st) q) (st_res st, 0, - 1, st_max st, st_nargmax st) =
     (res, sumsq, mmax, mx, nargmax)"
    by (metis prod_cases5)
  from assms show ?thesis
    by (auto simp: clean_1d_r_iter_def Let_def t mdl_round_trip_1d split: if_splits)
qed

lemma iter_state_1d_r_length:
  assumes "iter_state_1d_r rnd res ker mdl gain tol i = Some st"
  shows "length (st_res st) = length res"
proof -
  let ?P = "\<lambda>s :: (real list, real, nat) clean_state. length (st_res s) = length res"
  show ?thesis
  proof (rule state_at_inv [where P = ?P, OF _ _ assms [unfolded iter_state_1d_r_def]])
    show "?P (init_state res mdl 0 0)" by (simp add: init_state_def)
  next
    fix n s s'
    assume "?P s" and "clean_1d_r_iter rnd ker (kernel_q_1d_r rnd ker (length res)) gain tol n s = Next s'"
    with clean_1d_r_iter_Next(1) [of rnd ker _ gain tol n s s'] show "?P s'"
      by (simp add: take_steps_1d_r_length)
  qed
qed

lemma iter_state_1d_r_argmax:
  assumes at: "iter_state_1d_r rnd res ker mdl gain tol i = Some st" and d: "0 < length res"
  shows "st_argmax st < length res \<and> st_nargmax st < length res"
proof -
  let ?P = "\<lambda>s :: (real list, real, nat) clean_state.
    length (st_res s) = length res \<and> st_argmax s < length res \<and> st_nargmax s < length res"
  have "?P st"
  proof (rule state_at_inv [where P = ?P, OF _ _ at [unfolded iter_state_1d_r_def]])
    show "?P (init_state res mdl 0 0)" using d by (simp add: init_state_def)
  next
    fix n s s'
    assume P: "?P s"
      and nx: "clean_1d_r_iter rnd ker (kernel_q_1d_r rnd ker (length res)) gain tol n s = Next s'"
    from P have len: "length (st_res s) = length res" and na: "st_nargmax s < length res" by simp_all
    have "st_argmax s' < length res"
      unfolding clean_1d_r_iter_Next(2) [OF nx] len take_steps_1d_r_def
      by (rule take_step_1d_r_nargmax [OF d]) (simp add: na)
    with clean_1d_r_iter_Next(1,3) [OF nx] len show "?P s'"
      by (simp add: take_steps_1d_r_length)
  qed
  then show ?thesis by simp
qed

lemma step_1d_r:
  assumes sz: "length r1 \<le> 2 ^ 30"
    and at: "iter_state_1d_r rnd r1 k1 m1 gain tol i = Some s1" and n: "n < length r1"
  shows "(let argmax = st_argmax s1;
              step = rstep rnd gain (st_max s1) (kernel_q_1d_r rnd k1 (length r1));
              wrap_n = (n + argmax) mod length r1;
              new = rnd (st_res s1 ! wrap_n - rnd (k1 ! n * step))
          in length (st_res s1) = length r1 \<and> argmax < length r1 \<and> n + argmax < 2 ^ 31 \<and>
             wrap_n < length r1 \<and>
             wrap_index (int n) (int argmax) (int (length r1)) = int wrap_n \<and>
             (case clean_1d_r_iter rnd k1 (kernel_q_1d_r rnd k1 (length r1)) gain tol i s1 of
                Next s' \<Rightarrow> length (st_res s') = length r1 \<and> st_res s' ! wrap_n = new
              | Return rv s' \<Rightarrow> length (st_res s') = length r1 \<and>
                  st_res s' ! wrap_n = (if rv < 0 then rnd (new + rnd (k1 ! n * step)) else new)))"
proof -
  let ?q = "kernel_q_1d_r rnd k1 (length r1)"
  let ?step = "rstep rnd gain (st_max s1) ?q"
  let ?w = "(n + st_argmax s1) mod length r1"
  let ?new = "rnd (st_res s1 ! ?w - rnd (k1 ! n * ?step))"
  let ?T = "fst (take_steps_1d_r rnd k1 (length r1) (st_argmax s1) ?step
                  (st_res s1, 0, - 1, st_max s1, st_nargmax s1))"
  from n have d: "0 < length r1" by linarith
  have len: "length (st_res s1) = length r1" using at by (rule iter_state_1d_r_length)
  have a: "st_argmax s1 < length r1" using iter_state_1d_r_argmax [OF at d] by simp
  have "n + st_argmax s1 < 2 ^ 30 + 2 ^ 30" using n a sz by linarith
  then have ov: "n + st_argmax s1 < 2 ^ 31" by simp
  have w: "?w < length r1" using n by (rule wrap_less)
  have wi: "wrap_index (int n) (int (st_argmax s1)) (int (length r1)) = int ?w"
    using ov by (rule wrap_index_nat)
  from n len have n': "n < length (st_res s1)" by simp
  have T: "?T ! ?w = ?new" "length ?T = length r1"
    using take_steps_1d_r_nth(2) [OF n', of rnd k1 "st_argmax s1" ?step 0 "- 1" "st_max s1"
        "st_nargmax s1"] len
    by (simp_all add: take_steps_1d_r_length)
  have U: "undo_steps_1d_r rnd k1 (length r1) (st_argmax s1) ?step ?T ! ?w =
      rnd (?new + rnd (k1 ! n * ?step))"
    using undo_take_1d_r_nth [OF n', of rnd k1 "st_argmax s1" ?step 0 "- 1" "st_max s1"
        "st_nargmax s1"] len
    by simp
  have out: "case clean_1d_r_iter rnd k1 ?q gain tol i s1 of
                Next s' \<Rightarrow> length (st_res s') = length r1 \<and> st_res s' ! ?w = ?new
              | Return rv s' \<Rightarrow> length (st_res s') = length r1 \<and>
                  st_res s' ! ?w = (if rv < 0 then rnd (?new + rnd (k1 ! n * ?step)) else ?new)"
  proof (cases "clean_1d_r_iter rnd k1 ?q gain tol i s1")
    case (Next s')
    from clean_1d_r_iter_Next(1) [OF Next] T show ?thesis
      unfolding Next by (simp add: len)
  next
    case (Return rv s')
    have i: "0 < i"
      by (rule iter_state_no_return_0 [where P = "\<lambda>s. 0 < st_score s",
            OF at [unfolded iter_state_1d_r_def] Return])
        (auto dest: clean_1d_r_iter_Return simp: init_state_def)
    from clean_1d_r_iter_Return_cases [OF Return] i T U show ?thesis
      unfolding Return by (auto simp: len undo_steps_1d_r_length)
  qed
  from len a ov w wi out show ?thesis
    unfolding Let_def by (simp only: simp_thms)
qed


subsection \<open>1-D complex: what an iteration leaves\<close>

lemma take_step_1d_c_nargmax:
  "0 < d \<Longrightarrow> snd (snd (snd (snd acc))) < d \<Longrightarrow>
   snd (snd (snd (snd (fold (take_step_1d_c rnd ker d a step) ns acc)))) < d"
proof (induction ns arbitrary: acc)
  case Nil
  then show ?case by simp
next
  case (Cons n ns)
  obtain res nscore mmax mx nargmax where acc: "acc = (res, nscore, mmax, mx, nargmax)"
    by (cases acc) auto
  have "snd (snd (snd (snd (take_step_1d_c rnd ker d a step n acc)))) < d"
    using Cons.prems unfolding acc by (simp add: Let_def)
  from Cons.IH [OF Cons.prems(1) this] show ?case by simp
qed

lemma undo_steps_1d_c_length:
  "length (undo_steps_1d_c rnd ker d a step res) = length res"
  unfolding undo_steps_1d_c_def undo_step_1d_c_upd by simp

lemma undo_take_1d_c_nth:
  assumes n: "n < length res"
  shows "undo_steps_1d_c rnd ker (length res) a step
           (fst (take_steps_1d_c rnd ker (length res) a step (res, ns, mm, mx, na))) !
           ((n + a) mod length res) =
         cadd rnd (csub rnd (res ! ((n + a) mod length res)) (cmul rnd (ker ! n) step))
           (cmul rnd (ker ! n) step)"
proof -
  let ?T = "fst (take_steps_1d_c rnd ker (length res) a step (res, ns, mm, mx, na))"
  from n have w: "(n + a) mod length res < length res" by (rule wrap_less)
  have len: "length ?T = length res" by (simp add: take_steps_1d_c_length)
  have "undo_steps_1d_c rnd ker (length res) a step ?T ! ((n + a) mod length res) =
        cadd rnd (?T ! ((n + a) mod length res)) (cmul rnd (ker ! n) step)"
    unfolding undo_steps_1d_c_def undo_step_1d_c_upd
    using fold_upd_nth [of "[0..<length res]" "\<lambda>n. (n + a) mod length res" n ?T
        "\<lambda>n v. cadd rnd v (cmul rnd (ker ! n) step)"] n w len
    by (simp add: wrap_inj)
  with take_steps_1d_c_nth(2) [OF n, of rnd ker a step ns mm mx na] show ?thesis by simp
qed


lemma mdl_round_trip_1d_c:
  "mdl[a := csub rnd ((mdl[a := v]) ! a) s] = mdl[a := csub rnd v s]"
  by (cases "a < length mdl") (simp_all add: list_update_beyond)

lemma clean_1d_c_iter_Next:
  assumes "clean_1d_c_iter rnd ker q gain tol i st = Next st'"
  shows "st_res st' = fst (take_steps_1d_c rnd ker (length (st_res st)) (st_argmax st)
            (cstep rnd gain (st_max st) q) (st_res st, 0, - 1, st_max st, st_nargmax st))"
    and "st_argmax st' = snd (snd (snd (snd (take_steps_1d_c rnd ker (length (st_res st))
            (st_argmax st) (cstep rnd gain (st_max st) q)
            (st_res st, 0, - 1, st_max st, st_nargmax st)))))"
    and "st_nargmax st' = st_argmax st'"
proof -
  obtain res sumsq mmax mx nargmax where t:
    "take_steps_1d_c rnd ker (length (st_res st)) (st_argmax st)
       (cstep rnd gain (st_max st) q) (st_res st, 0, - 1, st_max st, st_nargmax st) =
     (res, sumsq, mmax, mx, nargmax)"
    by (metis prod_cases5)
  from assms show "st_res st' = fst (take_steps_1d_c rnd ker (length (st_res st)) (st_argmax st)
            (cstep rnd gain (st_max st) q) (st_res st, 0, - 1, st_max st, st_nargmax st))"
    and "st_argmax st' = snd (snd (snd (snd (take_steps_1d_c rnd ker (length (st_res st))
            (st_argmax st) (cstep rnd gain (st_max st) q)
            (st_res st, 0, - 1, st_max st, st_nargmax st)))))"
    and "st_nargmax st' = st_argmax st'"
    by (auto simp: clean_1d_c_iter_def Let_def t split: if_splits)
qed

lemma clean_1d_c_iter_Return_cases:
  assumes "clean_1d_c_iter rnd ker q gain tol i st = Return rv st'"
  shows "0 < st_score st \<and>
    (rv = - int i \<and>
     st_res st' = undo_steps_1d_c rnd ker (length (st_res st)) (st_argmax st)
        (cstep rnd gain (st_max st) q)
        (fst (take_steps_1d_c rnd ker (length (st_res st)) (st_argmax st)
            (cstep rnd gain (st_max st) q) (st_res st, 0, - 1, st_max st, st_nargmax st))) \<and>
     st_mdl st' = (st_mdl st)[st_argmax st :=
        csub rnd (cadd rnd (st_mdl st ! st_argmax st) (cstep rnd gain (st_max st) q))
          (cstep rnd gain (st_max st) q)] \<or>
     rv = int i \<and>
     st_res st' = fst (take_steps_1d_c rnd ker (length (st_res st)) (st_argmax st)
            (cstep rnd gain (st_max st) q) (st_res st, 0, - 1, st_max st, st_nargmax st)))"
proof -
  obtain res sumsq mmax mx nargmax where t:
    "take_steps_1d_c rnd ker (length (st_res st)) (st_argmax st)
       (cstep rnd gain (st_max st) q) (st_res st, 0, - 1, st_max st, st_nargmax st) =
     (res, sumsq, mmax, mx, nargmax)"
    by (metis prod_cases5)
  from assms show ?thesis
    by (auto simp: clean_1d_c_iter_def Let_def t mdl_round_trip_1d_c split: if_splits)
qed

lemma iter_state_1d_c_length:
  assumes "iter_state_1d_c rnd res ker mdl gain tol i = Some st"
  shows "length (st_res st) = length res"
proof -
  let ?P = "\<lambda>s :: (cplx list, cplx, nat) clean_state. length (st_res s) = length res"
  show ?thesis
  proof (rule state_at_inv [where P = ?P, OF _ _ assms [unfolded iter_state_1d_c_def]])
    show "?P (init_state res mdl (0, 0) 0)" by (simp add: init_state_def)
  next
    fix n s s'
    assume "?P s" and "clean_1d_c_iter rnd ker (kernel_q_1d_c rnd ker (length res)) gain tol n s = Next s'"
    with clean_1d_c_iter_Next(1) [of rnd ker _ gain tol n s s'] show "?P s'"
      by (simp add: take_steps_1d_c_length)
  qed
qed

lemma iter_state_1d_c_argmax:
  assumes at: "iter_state_1d_c rnd res ker mdl gain tol i = Some st" and d: "0 < length res"
  shows "st_argmax st < length res \<and> st_nargmax st < length res"
proof -
  let ?P = "\<lambda>s :: (cplx list, cplx, nat) clean_state.
    length (st_res s) = length res \<and> st_argmax s < length res \<and> st_nargmax s < length res"
  have "?P st"
  proof (rule state_at_inv [where P = ?P, OF _ _ at [unfolded iter_state_1d_c_def]])
    show "?P (init_state res mdl (0, 0) 0)" using d by (simp add: init_state_def)
  next
    fix n s s'
    assume P: "?P s"
      and nx: "clean_1d_c_iter rnd ker (kernel_q_1d_c rnd ker (length res)) gain tol n s = Next s'"
    from P have len: "length (st_res s) = length res" and na: "st_nargmax s < length res" by simp_all
    have "st_argmax s' < length res"
      unfolding clean_1d_c_iter_Next(2) [OF nx] len take_steps_1d_c_def
      by (rule take_step_1d_c_nargmax [OF d]) (simp add: na)
    with clean_1d_c_iter_Next(1,3) [OF nx] len show "?P s'"
      by (simp add: take_steps_1d_c_length)
  qed
  then show ?thesis by simp
qed

lemma step_1d_c:
  assumes sz: "length r3 \<le> 2 ^ 30"
    and at: "iter_state_1d_c rnd r3 k3 m3 gain tol i = Some s3" and n: "n < length r3"
  shows "(let argmax = st_argmax s3;
              step = cstep rnd gain (st_max s3) (kernel_q_1d_c rnd k3 (length r3));
              wrap_n = (n + argmax) mod length r3;
              new = csub rnd (st_res s3 ! wrap_n) (cmul rnd (k3 ! n) step)
          in length (st_res s3) = length r3 \<and> argmax < length r3 \<and> n + argmax < 2 ^ 31 \<and>
             wrap_n < length r3 \<and>
             wrap_index (int n) (int argmax) (int (length r3)) = int wrap_n \<and>
             (case clean_1d_c_iter rnd k3 (kernel_q_1d_c rnd k3 (length r3)) gain tol i s3 of
                Next s' \<Rightarrow> length (st_res s') = length r3 \<and> st_res s' ! wrap_n = new
              | Return rv s' \<Rightarrow> length (st_res s') = length r3 \<and>
                  st_res s' ! wrap_n =
                    (if rv < 0 then cadd rnd new (cmul rnd (k3 ! n) step) else new)))"
proof -
  let ?q = "kernel_q_1d_c rnd k3 (length r3)"
  let ?step = "cstep rnd gain (st_max s3) ?q"
  let ?w = "(n + st_argmax s3) mod length r3"
  let ?new = "csub rnd (st_res s3 ! ?w) (cmul rnd (k3 ! n) ?step)"
  let ?T = "fst (take_steps_1d_c rnd k3 (length r3) (st_argmax s3) ?step
                  (st_res s3, 0, - 1, st_max s3, st_nargmax s3))"
  from n have d: "0 < length r3" by linarith
  have len: "length (st_res s3) = length r3" using at by (rule iter_state_1d_c_length)
  have a: "st_argmax s3 < length r3" using iter_state_1d_c_argmax [OF at d] by simp
  have "n + st_argmax s3 < 2 ^ 30 + 2 ^ 30" using n a sz by linarith
  then have ov: "n + st_argmax s3 < 2 ^ 31" by simp
  have w: "?w < length r3" using n by (rule wrap_less)
  have wi: "wrap_index (int n) (int (st_argmax s3)) (int (length r3)) = int ?w"
    using ov by (rule wrap_index_nat)
  from n len have n': "n < length (st_res s3)" by simp
  have T: "?T ! ?w = ?new" "length ?T = length r3"
    using take_steps_1d_c_nth(2) [OF n', of rnd k3 "st_argmax s3" ?step 0 "- 1" "st_max s3"
        "st_nargmax s3"] len
    by (simp_all add: take_steps_1d_c_length)
  have U: "undo_steps_1d_c rnd k3 (length r3) (st_argmax s3) ?step ?T ! ?w =
      cadd rnd ?new (cmul rnd (k3 ! n) ?step)"
    using undo_take_1d_c_nth [OF n', of rnd k3 "st_argmax s3" ?step 0 "- 1" "st_max s3"
        "st_nargmax s3"] len
    by simp
  have out: "case clean_1d_c_iter rnd k3 ?q gain tol i s3 of
                Next s' \<Rightarrow> length (st_res s') = length r3 \<and> st_res s' ! ?w = ?new
              | Return rv s' \<Rightarrow> length (st_res s') = length r3 \<and>
                  st_res s' ! ?w =
                    (if rv < 0 then cadd rnd ?new (cmul rnd (k3 ! n) ?step) else ?new)"
  proof (cases "clean_1d_c_iter rnd k3 ?q gain tol i s3")
    case (Next s')
    from clean_1d_c_iter_Next(1) [OF Next] T show ?thesis
      unfolding Next by (simp add: len)
  next
    case (Return rv s')
    have i: "0 < i"
      by (rule iter_state_no_return_0 [where P = "\<lambda>s. 0 < st_score s",
            OF at [unfolded iter_state_1d_c_def] Return])
        (auto dest: clean_1d_c_iter_Return simp: init_state_def)
    from clean_1d_c_iter_Return_cases [OF Return] i T U show ?thesis
      unfolding Return by (auto simp: len undo_steps_1d_c_length)
  qed
  from len a ov w wi out show ?thesis
    unfolding Let_def by (simp only: simp_thms)
qed


subsection \<open>2-D real: what an iteration leaves\<close>

text \<open>Arrays of the same shape.\<close>

lemma same_shape:
  assumes "map length a = map length b"
  shows "DIM_0 a = DIM_0 b" and "DIM_1 a = DIM_1 b"
    and "(\<forall>row \<in> set b. length row = d) \<Longrightarrow> (\<forall>row \<in> set a. length row = d)"
proof -
  from assms show "DIM_0 a = DIM_0 b"
    unfolding DIM_0_def by (rule map_eq_imp_length_eq)
  from assms show "DIM_1 a = DIM_1 b"
    unfolding DIM_1_def by (cases a; cases b) simp_all
  assume "\<forall>row \<in> set b. length row = d"
  then have "\<forall>l \<in> set (map length b). l = d" by simp
  with assms have "\<forall>l \<in> set (map length a). l = d" by simp
  then show "\<forall>row \<in> set a. length row = d" by simp
qed

lemma take_step_2d_r_nargmax:
  "w1 < d1 \<Longrightarrow> 0 < d2 \<Longrightarrow>
   fst (snd (snd (snd (snd acc)))) < d1 \<and> snd (snd (snd (snd (snd acc)))) < d2 \<Longrightarrow>
   fst (snd (snd (snd (snd (fold (take_step_2d_r rnd ker d2 a2 step w1 n1) ns acc))))) < d1 \<and>
   snd (snd (snd (snd (snd (fold (take_step_2d_r rnd ker d2 a2 step w1 n1) ns acc))))) < d2"
proof (induction ns arbitrary: acc)
  case Nil
  then show ?case by simp
next
  case (Cons n ns)
  obtain res nscore mmax mx na1 na2 where acc: "acc = (res, nscore, mmax, mx, na1, na2)"
    by (cases acc) auto
  have "fst (snd (snd (snd (snd (take_step_2d_r rnd ker d2 a2 step w1 n1 n acc))))) < d1 \<and>
        snd (snd (snd (snd (snd (take_step_2d_r rnd ker d2 a2 step w1 n1 n acc))))) < d2"
    using Cons.prems unfolding acc by (simp add: Let_def)
  from Cons.IH [OF Cons.prems(1,2) this] show ?case by simp
qed

lemma take_steps_2d_r_nargmax:
  assumes d: "0 < d1" "0 < d2"
    and acc: "fst (snd (snd (snd (snd acc)))) < d1 \<and> snd (snd (snd (snd (snd acc)))) < d2"
  shows "fst (snd (snd (snd (snd (take_steps_2d_r rnd ker d1 d2 a1 a2 step acc))))) < d1 \<and>
         snd (snd (snd (snd (snd (take_steps_2d_r rnd ker d1 d2 a1 a2 step acc))))) < d2"
proof -
  have "fst (snd (snd (snd (snd (fold (\<lambda>n1. fold (take_step_2d_r rnd ker d2 a2 step
            ((n1 + a1) mod d1) n1) [0..<d2]) ns acc))))) < d1 \<and>
        snd (snd (snd (snd (snd (fold (\<lambda>n1. fold (take_step_2d_r rnd ker d2 a2 step
            ((n1 + a1) mod d1) n1) [0..<d2]) ns acc))))) < d2" for ns
    using acc
  proof (induction ns arbitrary: acc)
    case Nil
    then show ?case by simp
  next
    case (Cons n ns)
    have w: "(n + a1) mod d1 < d1" using d(1) by simp
    from Cons.IH [OF take_step_2d_r_nargmax [OF w d(2) Cons.prems]] show ?case by simp
  qed
  then show ?thesis by (simp add: take_steps_2d_r_def Let_def)
qed

lemma undo_steps_2d_r_shape:
  "map length (undo_steps_2d_r rnd ker d1 d2 a1 a2 step res) = map length res"
  unfolding undo_steps_2d_r_upd by (rule fold_upd_map_length) simp

lemma undo_take_2d_r_nth:
  assumes rect: "\<forall>row \<in> set res. length row = DIM_1 res"
    and n1: "n1 < DIM_0 res" and n2: "n2 < DIM_1 res"
  shows "IND2 (undo_steps_2d_r rnd ker (DIM_0 res) (DIM_1 res) a1 a2 step
           (fst (take_steps_2d_r rnd ker (DIM_0 res) (DIM_1 res) a1 a2 step (res, ns, mm, mx, na))))
           ((n1 + a1) mod DIM_0 res) ((n2 + a2) mod DIM_1 res) =
         rnd (rnd (IND2 res ((n1 + a1) mod DIM_0 res) ((n2 + a2) mod DIM_1 res) -
              rnd (IND2 ker n1 n2 * step)) + rnd (IND2 ker n1 n2 * step))"
proof -
  let ?T = "fst (take_steps_2d_r rnd ker (DIM_0 res) (DIM_1 res) a1 a2 step (res, ns, mm, mx, na))"
  have sh: "map length ?T = map length res" by (simp add: take_steps_2d_r_shape)
  from same_shape(3) [OF sh rect] have rectT: "\<forall>row \<in> set ?T. length row = DIM_1 res" .
  from same_shape(1) [OF sh] have lenT: "length ?T = length res" by (simp add: DIM_0_def)
  from n1 lenT have n1': "n1 < length ?T" unfolding DIM_0_def by simp
  have "IND2 (undo_steps_2d_r rnd ker (DIM_0 res) (DIM_1 res) a1 a2 step ?T)
           ((n1 + a1) mod DIM_0 res) ((n2 + a2) mod DIM_1 res) =
        rnd (IND2 ?T ((n1 + a1) mod DIM_0 res) ((n2 + a2) mod DIM_1 res) + rnd (IND2 ker n1 n2 * step))"
    using fold_upd_2d_nth [OF rectT n1' n2,
        of a1 a2 "\<lambda>n1 n2 v. rnd (v + rnd (ker ! n1 ! n2 * step))"] lenT
    unfolding undo_steps_2d_r_upd IND2_def DIM_0_def
    by simp
  with take_steps_2d_r_nth [OF rect n1 n2, of rnd ker a1 a2 step ns mm mx na] show ?thesis
    by simp
qed


lemma mdl_round_trip_2d:
  "set_IND2 (set_IND2 mdl a1 a2 v) a1 a2 (rnd (IND2 (set_IND2 mdl a1 a2 v) a1 a2 - (s::real))) =
   set_IND2 mdl a1 a2 (rnd (v - s))"
  by (cases "a1 < length mdl"; cases "a2 < length (mdl ! a1)")
    (simp_all add: set_IND2_def IND2_def list_update_beyond)


lemma clean_2d_r_iter_Next:
  assumes "clean_2d_r_iter rnd ker q gain tol i st = Next st'"
  shows "st_res st' = fst (take_steps_2d_r rnd ker (DIM_0 (st_res st)) (DIM_1 (st_res st))
            (fst (st_argmax st)) (snd (st_argmax st))
            (rstep rnd gain (st_max st) q) (st_res st, 0, - 1, st_max st, st_nargmax st))"
    and "st_argmax st' = snd (snd (snd (snd (take_steps_2d_r rnd ker (DIM_0 (st_res st))
            (DIM_1 (st_res st)) (fst (st_argmax st)) (snd (st_argmax st))
            (rstep rnd gain (st_max st) q) (st_res st, 0, - 1, st_max st, st_nargmax st)))))"
    and "st_nargmax st' = st_argmax st'"
proof -
  obtain argmax1 argmax2 where a: "st_argmax st = (argmax1, argmax2)"
    by (cases "st_argmax st")
  obtain res sumsq mmax mx nargmax where t:
    "take_steps_2d_r rnd ker (DIM_0 (st_res st)) (DIM_1 (st_res st)) argmax1 argmax2
       (rstep rnd gain (st_max st) q) (st_res st, 0, - 1, st_max st, st_nargmax st) =
     (res, sumsq, mmax, mx, nargmax)"
    by (metis prod_cases5)
  from assms show "st_res st' = fst (take_steps_2d_r rnd ker (DIM_0 (st_res st)) (DIM_1 (st_res st))
            (fst (st_argmax st)) (snd (st_argmax st))
            (rstep rnd gain (st_max st) q) (st_res st, 0, - 1, st_max st, st_nargmax st))"
    and "st_argmax st' = snd (snd (snd (snd (take_steps_2d_r rnd ker (DIM_0 (st_res st))
            (DIM_1 (st_res st)) (fst (st_argmax st)) (snd (st_argmax st))
            (rstep rnd gain (st_max st) q) (st_res st, 0, - 1, st_max st, st_nargmax st)))))"
    and "st_nargmax st' = st_argmax st'"
    by (auto simp: clean_2d_r_iter_def Let_def a t split: if_splits)
qed

lemma clean_2d_r_iter_Return_cases:
  assumes "clean_2d_r_iter rnd ker q gain tol i st = Return rv st'"
  shows "0 < st_score st \<and>
    (rv = - int i \<and>
     st_res st' = undo_steps_2d_r rnd ker (DIM_0 (st_res st)) (DIM_1 (st_res st))
        (fst (st_argmax st)) (snd (st_argmax st)) (rstep rnd gain (st_max st) q)
        (fst (take_steps_2d_r rnd ker (DIM_0 (st_res st)) (DIM_1 (st_res st))
            (fst (st_argmax st)) (snd (st_argmax st))
            (rstep rnd gain (st_max st) q) (st_res st, 0, - 1, st_max st, st_nargmax st))) \<and>
     st_mdl st' = set_IND2 (st_mdl st) (fst (st_argmax st)) (snd (st_argmax st))
        (rnd (rnd (IND2 (st_mdl st) (fst (st_argmax st)) (snd (st_argmax st)) +
                   rstep rnd gain (st_max st) q) - rstep rnd gain (st_max st) q)) \<or>
     rv = int i \<and>
     st_res st' = fst (take_steps_2d_r rnd ker (DIM_0 (st_res st)) (DIM_1 (st_res st))
            (fst (st_argmax st)) (snd (st_argmax st))
            (rstep rnd gain (st_max st) q) (st_res st, 0, - 1, st_max st, st_nargmax st)))"
proof -
  obtain argmax1 argmax2 where a: "st_argmax st = (argmax1, argmax2)"
    by (cases "st_argmax st")
  obtain res sumsq mmax mx nargmax where t:
    "take_steps_2d_r rnd ker (DIM_0 (st_res st)) (DIM_1 (st_res st)) argmax1 argmax2
       (rstep rnd gain (st_max st) q) (st_res st, 0, - 1, st_max st, st_nargmax st) =
     (res, sumsq, mmax, mx, nargmax)"
    by (metis prod_cases5)
  from assms show ?thesis
    by (auto simp: clean_2d_r_iter_def Let_def a t mdl_round_trip_2d split: if_splits)
qed

lemma iter_state_2d_r_shape:
  assumes "iter_state_2d_r rnd res ker mdl gain tol i = Some st"
  shows "map length (st_res st) = map length res"
proof -
  let ?P = "\<lambda>s :: (real list list, real, nat \<times> nat) clean_state.
    map length (st_res s) = map length res"
  show ?thesis
  proof (rule state_at_inv [where P = ?P, OF _ _ assms [unfolded iter_state_2d_r_def]])
    show "?P (init_state res mdl 0 (0, 0))" by (simp add: init_state_def)
  next
    fix n s s'
    assume "?P s" and "clean_2d_r_iter rnd ker (kernel_q_2d_r rnd ker (DIM_0 res) (DIM_1 res))
      gain tol n s = Next s'"
    with clean_2d_r_iter_Next(1) [of rnd ker _ gain tol n s s'] show "?P s'"
      by (simp add: take_steps_2d_r_shape)
  qed
qed

lemma iter_state_2d_r_argmax:
  assumes at: "iter_state_2d_r rnd res ker mdl gain tol i = Some st"
    and d: "0 < DIM_0 res" "0 < DIM_1 res"
  shows "fst (st_argmax st) < DIM_0 res \<and> snd (st_argmax st) < DIM_1 res"
proof -
  let ?P = "\<lambda>s :: (real list list, real, nat \<times> nat) clean_state.
    map length (st_res s) = map length res \<and>
    fst (st_argmax s) < DIM_0 res \<and> snd (st_argmax s) < DIM_1 res \<and>
    fst (st_nargmax s) < DIM_0 res \<and> snd (st_nargmax s) < DIM_1 res"
  have "?P st"
  proof (rule state_at_inv [where P = ?P, OF _ _ at [unfolded iter_state_2d_r_def]])
    show "?P (init_state res mdl 0 (0, 0))" using d by (simp add: init_state_def)
  next
    fix n s s'
    assume P: "?P s"
      and nx: "clean_2d_r_iter rnd ker (kernel_q_2d_r rnd ker (DIM_0 res) (DIM_1 res))
        gain tol n s = Next s'"
    from P have sh: "map length (st_res s) = map length res"
      and na: "fst (st_nargmax s) < DIM_0 res \<and> snd (st_nargmax s) < DIM_1 res" by simp_all
    note dims = same_shape(1,2) [OF sh]
    have "fst (st_argmax s') < DIM_0 res \<and> snd (st_argmax s') < DIM_1 res"
      unfolding clean_2d_r_iter_Next(2) [OF nx] dims
      using take_steps_2d_r_nargmax [OF d, of "(st_res s, 0, - 1, st_max s, st_nargmax s)"
          rnd ker "fst (st_argmax s)" "snd (st_argmax s)"] na
      by simp
    with clean_2d_r_iter_Next(1,3) [OF nx] sh show "?P s'"
      by (simp add: take_steps_2d_r_shape)
  qed
  then show ?thesis by simp
qed

lemma step_2d_r:
  assumes sz: "DIM_0 r2 \<le> 2 ^ 30" "DIM_1 r2 \<le> 2 ^ 30"
    and rect: "\<forall>row \<in> set r2. length row = DIM_1 r2"
    and at: "iter_state_2d_r rnd r2 k2 m2 gain tol i = Some s2"
    and n1: "n1 < DIM_0 r2" and n2: "n2 < DIM_1 r2"
  shows "(let (argmax1, argmax2) = st_argmax s2;
              step = rstep rnd gain (st_max s2) (kernel_q_2d_r rnd k2 (DIM_0 r2) (DIM_1 r2));
              wrap_n1 = (n1 + argmax1) mod DIM_0 r2;
              wrap_n2 = (n2 + argmax2) mod DIM_1 r2;
              new = rnd (IND2 (st_res s2) wrap_n1 wrap_n2 - rnd (IND2 k2 n1 n2 * step))
          in map length (st_res s2) = map length r2 \<and>
             argmax1 < DIM_0 r2 \<and> argmax2 < DIM_1 r2 \<and>
             n1 + argmax1 < 2 ^ 31 \<and> n2 + argmax2 < 2 ^ 31 \<and>
             wrap_n1 < DIM_0 r2 \<and> wrap_n2 < DIM_1 r2 \<and>
             wrap_index (int n1) (int argmax1) (int (DIM_0 r2)) = int wrap_n1 \<and>
             wrap_index (int n2) (int argmax2) (int (DIM_1 r2)) = int wrap_n2 \<and>
             (case clean_2d_r_iter rnd k2 (kernel_q_2d_r rnd k2 (DIM_0 r2) (DIM_1 r2)) gain tol i s2 of
                Next s' \<Rightarrow> map length (st_res s') = map length r2 \<and>
                  IND2 (st_res s') wrap_n1 wrap_n2 = new
              | Return rv s' \<Rightarrow> map length (st_res s') = map length r2 \<and>
                  IND2 (st_res s') wrap_n1 wrap_n2 =
                    (if rv < 0 then rnd (new + rnd (IND2 k2 n1 n2 * step)) else new)))"
proof -
  obtain a1 a2 where am: "st_argmax s2 = (a1, a2)" by (cases "st_argmax s2")
  let ?q = "kernel_q_2d_r rnd k2 (DIM_0 r2) (DIM_1 r2)"
  let ?step = "rstep rnd gain (st_max s2) ?q"
  let ?w1 = "(n1 + a1) mod DIM_0 r2" and ?w2 = "(n2 + a2) mod DIM_1 r2"
  let ?new = "rnd (IND2 (st_res s2) ?w1 ?w2 - rnd (IND2 k2 n1 n2 * ?step))"
  let ?T = "fst (take_steps_2d_r rnd k2 (DIM_0 r2) (DIM_1 r2) a1 a2 ?step
                  (st_res s2, 0, - 1, st_max s2, st_nargmax s2))"
  from n1 n2 have d: "0 < DIM_0 r2" "0 < DIM_1 r2" by linarith+
  have sh: "map length (st_res s2) = map length r2" using at by (rule iter_state_2d_r_shape)
  note dims = same_shape(1,2) [OF sh]
  from same_shape(3) [OF sh rect] have rect': "\<forall>row \<in> set (st_res s2). length row = DIM_1 (st_res s2)"
    by (simp add: dims)
  have a: "a1 < DIM_0 r2" "a2 < DIM_1 r2" using iter_state_2d_r_argmax [OF at d] am by simp_all
  have "n1 + a1 < 2 ^ 30 + 2 ^ 30" "n2 + a2 < 2 ^ 30 + 2 ^ 30" using n1 n2 a sz by linarith+
  then have ov: "n1 + a1 < 2 ^ 31" "n2 + a2 < 2 ^ 31" by simp_all
  have w: "?w1 < DIM_0 r2" "?w2 < DIM_1 r2" using n1 n2 by (simp_all add: wrap_less)
  have wi: "wrap_index (int n1) (int a1) (int (DIM_0 r2)) = int ?w1"
    "wrap_index (int n2) (int a2) (int (DIM_1 r2)) = int ?w2"
    using ov by (simp_all add: wrap_index_nat)
  from n1 n2 have n': "n1 < DIM_0 (st_res s2)" "n2 < DIM_1 (st_res s2)" by (simp_all add: dims)
  have T: "IND2 ?T ?w1 ?w2 = ?new" "map length ?T = map length r2"
    using take_steps_2d_r_nth [OF rect' n', of rnd k2 a1 a2 ?step 0 "- 1" "st_max s2"
        "st_nargmax s2"] sh
    by (simp_all add: take_steps_2d_r_shape dims)
  have U: "IND2 (undo_steps_2d_r rnd k2 (DIM_0 r2) (DIM_1 r2) a1 a2 ?step ?T) ?w1 ?w2 =
      rnd (?new + rnd (IND2 k2 n1 n2 * ?step))"
    using undo_take_2d_r_nth [OF rect' n', of rnd k2 a1 a2 ?step 0 "- 1" "st_max s2"
        "st_nargmax s2"]
    by (simp add: dims)
  have out: "case clean_2d_r_iter rnd k2 ?q gain tol i s2 of
                Next s' \<Rightarrow> map length (st_res s') = map length r2 \<and> IND2 (st_res s') ?w1 ?w2 = ?new
              | Return rv s' \<Rightarrow> map length (st_res s') = map length r2 \<and>
                  IND2 (st_res s') ?w1 ?w2 =
                    (if rv < 0 then rnd (?new + rnd (IND2 k2 n1 n2 * ?step)) else ?new)"
  proof (cases "clean_2d_r_iter rnd k2 ?q gain tol i s2")
    case (Next s')
    from clean_2d_r_iter_Next(1) [OF Next] T show ?thesis
      unfolding Next by (simp add: dims am)
  next
    case (Return rv s')
    have i: "0 < i"
      by (rule iter_state_no_return_0 [where P = "\<lambda>s. 0 < st_score s",
            OF at [unfolded iter_state_2d_r_def] Return])
        (auto dest: clean_2d_r_iter_Return simp: init_state_def)
    from clean_2d_r_iter_Return_cases [OF Return] i T U show ?thesis
      unfolding Return by (auto simp: dims am undo_steps_2d_r_shape)
  qed
  from sh a ov w wi out show ?thesis
    unfolding Let_def am prod.case by (simp only: simp_thms)
qed


subsection \<open>2-D complex: what an iteration leaves\<close>

lemma take_step_2d_c_nargmax:
  "w1 < d1 \<Longrightarrow> 0 < d2 \<Longrightarrow>
   fst (snd (snd (snd (snd acc)))) < d1 \<and> snd (snd (snd (snd (snd acc)))) < d2 \<Longrightarrow>
   fst (snd (snd (snd (snd (fold (take_step_2d_c rnd ker d2 a2 step w1 n1) ns acc))))) < d1 \<and>
   snd (snd (snd (snd (snd (fold (take_step_2d_c rnd ker d2 a2 step w1 n1) ns acc))))) < d2"
proof (induction ns arbitrary: acc)
  case Nil
  then show ?case by simp
next
  case (Cons n ns)
  obtain res nscore mmax mx na1 na2 where acc: "acc = (res, nscore, mmax, mx, na1, na2)"
    by (cases acc) auto
  have "fst (snd (snd (snd (snd (take_step_2d_c rnd ker d2 a2 step w1 n1 n acc))))) < d1 \<and>
        snd (snd (snd (snd (snd (take_step_2d_c rnd ker d2 a2 step w1 n1 n acc))))) < d2"
    using Cons.prems unfolding acc by (simp add: Let_def)
  from Cons.IH [OF Cons.prems(1,2) this] show ?case by simp
qed

lemma take_steps_2d_c_nargmax:
  assumes d: "0 < d1" "0 < d2"
    and acc: "fst (snd (snd (snd (snd acc)))) < d1 \<and> snd (snd (snd (snd (snd acc)))) < d2"
  shows "fst (snd (snd (snd (snd (take_steps_2d_c rnd ker d1 d2 a1 a2 step acc))))) < d1 \<and>
         snd (snd (snd (snd (snd (take_steps_2d_c rnd ker d1 d2 a1 a2 step acc))))) < d2"
proof -
  have "fst (snd (snd (snd (snd (fold (\<lambda>n1. fold (take_step_2d_c rnd ker d2 a2 step
            ((n1 + a1) mod d1) n1) [0..<d2]) ns acc))))) < d1 \<and>
        snd (snd (snd (snd (snd (fold (\<lambda>n1. fold (take_step_2d_c rnd ker d2 a2 step
            ((n1 + a1) mod d1) n1) [0..<d2]) ns acc))))) < d2" for ns
    using acc
  proof (induction ns arbitrary: acc)
    case Nil
    then show ?case by simp
  next
    case (Cons n ns)
    have w: "(n + a1) mod d1 < d1" using d(1) by simp
    from Cons.IH [OF take_step_2d_c_nargmax [OF w d(2) Cons.prems]] show ?case by simp
  qed
  then show ?thesis by (simp add: take_steps_2d_c_def Let_def)
qed

lemma undo_steps_2d_c_shape:
  "map length (undo_steps_2d_c rnd ker d1 d2 a1 a2 step res) = map length res"
  unfolding undo_steps_2d_c_upd by (rule fold_upd_map_length) simp

lemma undo_take_2d_c_nth:
  assumes rect: "\<forall>row \<in> set res. length row = DIM_1 res"
    and n1: "n1 < DIM_0 res" and n2: "n2 < DIM_1 res"
  shows "IND2 (undo_steps_2d_c rnd ker (DIM_0 res) (DIM_1 res) a1 a2 step
           (fst (take_steps_2d_c rnd ker (DIM_0 res) (DIM_1 res) a1 a2 step (res, ns, mm, mx, na))))
           ((n1 + a1) mod DIM_0 res) ((n2 + a2) mod DIM_1 res) =
         cadd rnd (csub rnd (IND2 res ((n1 + a1) mod DIM_0 res) ((n2 + a2) mod DIM_1 res))
              (cmul rnd (IND2 ker n1 n2) step)) (cmul rnd (IND2 ker n1 n2) step)"
proof -
  let ?T = "fst (take_steps_2d_c rnd ker (DIM_0 res) (DIM_1 res) a1 a2 step (res, ns, mm, mx, na))"
  have sh: "map length ?T = map length res" by (simp add: take_steps_2d_c_shape)
  from same_shape(3) [OF sh rect] have rectT: "\<forall>row \<in> set ?T. length row = DIM_1 res" .
  from same_shape(1) [OF sh] have lenT: "length ?T = length res" by (simp add: DIM_0_def)
  from n1 lenT have n1': "n1 < length ?T" unfolding DIM_0_def by simp
  have "IND2 (undo_steps_2d_c rnd ker (DIM_0 res) (DIM_1 res) a1 a2 step ?T)
           ((n1 + a1) mod DIM_0 res) ((n2 + a2) mod DIM_1 res) =
        cadd rnd (IND2 ?T ((n1 + a1) mod DIM_0 res) ((n2 + a2) mod DIM_1 res))
          (cmul rnd (IND2 ker n1 n2) step)"
    using fold_upd_2d_nth [OF rectT n1' n2,
        of a1 a2 "\<lambda>n1 n2 v. cadd rnd v (cmul rnd (ker ! n1 ! n2) step)"] lenT
    unfolding undo_steps_2d_c_upd IND2_def DIM_0_def
    by simp
  with take_steps_2d_c_nth [OF rect n1 n2, of rnd ker a1 a2 step ns mm mx na] show ?thesis
    by simp
qed

lemma mdl_round_trip_2d_c:
  "set_IND2 (set_IND2 mdl a1 a2 v) a1 a2 (csub rnd (IND2 (set_IND2 mdl a1 a2 v) a1 a2) s) =
   set_IND2 mdl a1 a2 (csub rnd v s)"
  by (cases "a1 < length mdl"; cases "a2 < length (mdl ! a1)")
    (simp_all add: set_IND2_def IND2_def list_update_beyond)

lemma clean_2d_c_iter_Next:
  assumes "clean_2d_c_iter rnd ker q gain tol i st = Next st'"
  shows "st_res st' =
      (if 0 < st_score st \<and> st_score st < st_score st' then
         undo_steps_2d_c rnd ker (DIM_0 (st_res st)) (DIM_1 (st_res st))
           (fst (st_argmax st)) (snd (st_argmax st)) (cstep rnd gain (st_max st) q)
           (fst (take_steps_2d_c rnd ker (DIM_0 (st_res st)) (DIM_1 (st_res st))
              (fst (st_argmax st)) (snd (st_argmax st))
              (cstep rnd gain (st_max st) q) (st_res st, 0, - 1, st_max st, st_nargmax st)))
       else fst (take_steps_2d_c rnd ker (DIM_0 (st_res st)) (DIM_1 (st_res st))
            (fst (st_argmax st)) (snd (st_argmax st))
            (cstep rnd gain (st_max st) q) (st_res st, 0, - 1, st_max st, st_nargmax st)))"
    and "st_argmax st' = snd (snd (snd (snd (take_steps_2d_c rnd ker (DIM_0 (st_res st))
            (DIM_1 (st_res st)) (fst (st_argmax st)) (snd (st_argmax st))
            (cstep rnd gain (st_max st) q) (st_res st, 0, - 1, st_max st, st_nargmax st)))))"
    and "st_nargmax st' = st_argmax st'"
proof -
  obtain argmax1 argmax2 where a: "st_argmax st = (argmax1, argmax2)"
    by (cases "st_argmax st")
  obtain res sumsq mmax mx nargmax where t:
    "take_steps_2d_c rnd ker (DIM_0 (st_res st)) (DIM_1 (st_res st)) argmax1 argmax2
       (cstep rnd gain (st_max st) q) (st_res st, 0, - 1, st_max st, st_nargmax st) =
     (res, sumsq, mmax, mx, nargmax)"
    by (metis prod_cases5)
  from assms show "st_res st' =
      (if 0 < st_score st \<and> st_score st < st_score st' then
         undo_steps_2d_c rnd ker (DIM_0 (st_res st)) (DIM_1 (st_res st))
           (fst (st_argmax st)) (snd (st_argmax st)) (cstep rnd gain (st_max st) q)
           (fst (take_steps_2d_c rnd ker (DIM_0 (st_res st)) (DIM_1 (st_res st))
              (fst (st_argmax st)) (snd (st_argmax st))
              (cstep rnd gain (st_max st) q) (st_res st, 0, - 1, st_max st, st_nargmax st)))
       else fst (take_steps_2d_c rnd ker (DIM_0 (st_res st)) (DIM_1 (st_res st))
            (fst (st_argmax st)) (snd (st_argmax st))
            (cstep rnd gain (st_max st) q) (st_res st, 0, - 1, st_max st, st_nargmax st)))"
    and "st_argmax st' = snd (snd (snd (snd (take_steps_2d_c rnd ker (DIM_0 (st_res st))
            (DIM_1 (st_res st)) (fst (st_argmax st)) (snd (st_argmax st))
            (cstep rnd gain (st_max st) q) (st_res st, 0, - 1, st_max st, st_nargmax st)))))"
    and "st_nargmax st' = st_argmax st'"
    by (auto simp: clean_2d_c_iter_def Let_def a t split: if_splits)
qed

lemma clean_2d_c_iter_Return_res:
  assumes "clean_2d_c_iter rnd ker q gain tol i st = Return rv st'"
  shows "st_res st' = fst (take_steps_2d_c rnd ker (DIM_0 (st_res st)) (DIM_1 (st_res st))
            (fst (st_argmax st)) (snd (st_argmax st))
            (cstep rnd gain (st_max st) q) (st_res st, 0, - 1, st_max st, st_nargmax st))"
proof -
  obtain argmax1 argmax2 where a: "st_argmax st = (argmax1, argmax2)"
    by (cases "st_argmax st")
  obtain res sumsq mmax mx nargmax where t:
    "take_steps_2d_c rnd ker (DIM_0 (st_res st)) (DIM_1 (st_res st)) argmax1 argmax2
       (cstep rnd gain (st_max st) q) (st_res st, 0, - 1, st_max st, st_nargmax st) =
     (res, sumsq, mmax, mx, nargmax)"
    by (metis prod_cases5)
  from assms show ?thesis
    by (auto simp: clean_2d_c_iter_def Let_def a t split: if_splits)
qed

lemma iter_state_2d_c_shape:
  assumes "iter_state_2d_c rnd res ker mdl gain tol i = Some st"
  shows "map length (st_res st) = map length res"
proof -
  let ?P = "\<lambda>s :: (cplx list list, cplx, nat \<times> nat) clean_state.
    map length (st_res s) = map length res"
  show ?thesis
  proof (rule state_at_inv [where P = ?P, OF _ _ assms [unfolded iter_state_2d_c_def]])
    show "?P (init_state res mdl (0, 0) (0, 0))" by (simp add: init_state_def)
  next
    fix n s s'
    assume "?P s" and "clean_2d_c_iter rnd ker (kernel_q_2d_c rnd ker (DIM_0 res) (DIM_1 res))
      gain tol n s = Next s'"
    with clean_2d_c_iter_Next(1) [of rnd ker _ gain tol n s s'] show "?P s'"
      by (simp add: take_steps_2d_c_shape undo_steps_2d_c_shape)
  qed
qed

lemma iter_state_2d_c_argmax:
  assumes at: "iter_state_2d_c rnd res ker mdl gain tol i = Some st"
    and d: "0 < DIM_0 res" "0 < DIM_1 res"
  shows "fst (st_argmax st) < DIM_0 res \<and> snd (st_argmax st) < DIM_1 res"
proof -
  let ?P = "\<lambda>s :: (cplx list list, cplx, nat \<times> nat) clean_state.
    map length (st_res s) = map length res \<and>
    fst (st_argmax s) < DIM_0 res \<and> snd (st_argmax s) < DIM_1 res \<and>
    fst (st_nargmax s) < DIM_0 res \<and> snd (st_nargmax s) < DIM_1 res"
  have "?P st"
  proof (rule state_at_inv [where P = ?P, OF _ _ at [unfolded iter_state_2d_c_def]])
    show "?P (init_state res mdl (0, 0) (0, 0))" using d by (simp add: init_state_def)
  next
    fix n s s'
    assume P: "?P s"
      and nx: "clean_2d_c_iter rnd ker (kernel_q_2d_c rnd ker (DIM_0 res) (DIM_1 res))
        gain tol n s = Next s'"
    from P have sh: "map length (st_res s) = map length res"
      and na: "fst (st_nargmax s) < DIM_0 res \<and> snd (st_nargmax s) < DIM_1 res" by simp_all
    note dims = same_shape(1,2) [OF sh]
    have "fst (st_argmax s') < DIM_0 res \<and> snd (st_argmax s') < DIM_1 res"
      unfolding clean_2d_c_iter_Next(2) [OF nx] dims
      using take_steps_2d_c_nargmax [OF d, of "(st_res s, 0, - 1, st_max s, st_nargmax s)"
          rnd ker "fst (st_argmax s)" "snd (st_argmax s)"] na
      by simp
    with clean_2d_c_iter_Next(1,3) [OF nx] sh show "?P s'"
      by (simp add: take_steps_2d_c_shape undo_steps_2d_c_shape)
  qed
  then show ?thesis by simp
qed

lemma step_2d_c:
  assumes sz: "DIM_0 r4 \<le> 2 ^ 30" "DIM_1 r4 \<le> 2 ^ 30"
    and rect: "\<forall>row \<in> set r4. length row = DIM_1 r4"
    and at: "iter_state_2d_c rnd r4 k4 m4 gain tol i = Some s4"
    and n1: "n1 < DIM_0 r4" and n2: "n2 < DIM_1 r4"
  shows "(let (argmax1, argmax2) = st_argmax s4;
              step = cstep rnd gain (st_max s4) (kernel_q_2d_c rnd k4 (DIM_0 r4) (DIM_1 r4));
              wrap_n1 = (n1 + argmax1) mod DIM_0 r4;
              wrap_n2 = (n2 + argmax2) mod DIM_1 r4;
              new = csub rnd (IND2 (st_res s4) wrap_n1 wrap_n2) (cmul rnd (IND2 k4 n1 n2) step)
          in map length (st_res s4) = map length r4 \<and>
             argmax1 < DIM_0 r4 \<and> argmax2 < DIM_1 r4 \<and>
             n1 + argmax1 < 2 ^ 31 \<and> n2 + argmax2 < 2 ^ 31 \<and>
             wrap_n1 < DIM_0 r4 \<and> wrap_n2 < DIM_1 r4 \<and>
             wrap_index (int n1) (int argmax1) (int (DIM_0 r4)) = int wrap_n1 \<and>
             wrap_index (int n2) (int argmax2) (int (DIM_1 r4)) = int wrap_n2 \<and>
             (case clean_2d_c_iter rnd k4 (kernel_q_2d_c rnd k4 (DIM_0 r4) (DIM_1 r4)) gain tol i s4 of
                Next s' \<Rightarrow> map length (st_res s') = map length r4 \<and>
                  IND2 (st_res s') wrap_n1 wrap_n2 =
                    (if 0 < st_score s4 \<and> st_score s4 < st_score s'
                     then cadd rnd new (cmul rnd (IND2 k4 n1 n2) step) else new)
              | Return rv s' \<Rightarrow> map length (st_res s') = map length r4 \<and>
                  IND2 (st_res s') wrap_n1 wrap_n2 = new))"
proof -
  obtain a1 a2 where am: "st_argmax s4 = (a1, a2)" by (cases "st_argmax s4")
  let ?q = "kernel_q_2d_c rnd k4 (DIM_0 r4) (DIM_1 r4)"
  let ?step = "cstep rnd gain (st_max s4) ?q"
  let ?w1 = "(n1 + a1) mod DIM_0 r4" and ?w2 = "(n2 + a2) mod DIM_1 r4"
  let ?new = "csub rnd (IND2 (st_res s4) ?w1 ?w2) (cmul rnd (IND2 k4 n1 n2) ?step)"
  let ?T = "fst (take_steps_2d_c rnd k4 (DIM_0 r4) (DIM_1 r4) a1 a2 ?step
                  (st_res s4, 0, - 1, st_max s4, st_nargmax s4))"
  from n1 n2 have d: "0 < DIM_0 r4" "0 < DIM_1 r4" by linarith+
  have sh: "map length (st_res s4) = map length r4" using at by (rule iter_state_2d_c_shape)
  note dims = same_shape(1,2) [OF sh]
  from same_shape(3) [OF sh rect] have rect': "\<forall>row \<in> set (st_res s4). length row = DIM_1 (st_res s4)"
    by (simp add: dims)
  have a: "a1 < DIM_0 r4" "a2 < DIM_1 r4" using iter_state_2d_c_argmax [OF at d] am by simp_all
  have "n1 + a1 < 2 ^ 30 + 2 ^ 30" "n2 + a2 < 2 ^ 30 + 2 ^ 30" using n1 n2 a sz by linarith+
  then have ov: "n1 + a1 < 2 ^ 31" "n2 + a2 < 2 ^ 31" by simp_all
  have w: "?w1 < DIM_0 r4" "?w2 < DIM_1 r4" using n1 n2 by (simp_all add: wrap_less)
  have wi: "wrap_index (int n1) (int a1) (int (DIM_0 r4)) = int ?w1"
    "wrap_index (int n2) (int a2) (int (DIM_1 r4)) = int ?w2"
    using ov by (simp_all add: wrap_index_nat)
  from n1 n2 have n': "n1 < DIM_0 (st_res s4)" "n2 < DIM_1 (st_res s4)" by (simp_all add: dims)
  have T: "IND2 ?T ?w1 ?w2 = ?new" "map length ?T = map length r4"
    using take_steps_2d_c_nth [OF rect' n', of rnd k4 a1 a2 ?step 0 "- 1" "st_max s4"
        "st_nargmax s4"] sh
    by (simp_all add: take_steps_2d_c_shape dims)
  have U: "IND2 (undo_steps_2d_c rnd k4 (DIM_0 r4) (DIM_1 r4) a1 a2 ?step ?T) ?w1 ?w2 =
      cadd rnd ?new (cmul rnd (IND2 k4 n1 n2) ?step)"
    using undo_take_2d_c_nth [OF rect' n', of rnd k4 a1 a2 ?step 0 "- 1" "st_max s4"
        "st_nargmax s4"]
    by (simp add: dims)
  have out: "case clean_2d_c_iter rnd k4 ?q gain tol i s4 of
                Next s' \<Rightarrow> map length (st_res s') = map length r4 \<and>
                  IND2 (st_res s') ?w1 ?w2 =
                    (if 0 < st_score s4 \<and> st_score s4 < st_score s'
                     then cadd rnd ?new (cmul rnd (IND2 k4 n1 n2) ?step) else ?new)
              | Return rv s' \<Rightarrow> map length (st_res s') = map length r4 \<and>
                  IND2 (st_res s') ?w1 ?w2 = ?new"
  proof (cases "clean_2d_c_iter rnd k4 ?q gain tol i s4")
    case (Next s')
    from clean_2d_c_iter_Next(1) [OF Next] T U show ?thesis
      unfolding Next by (simp add: dims am undo_steps_2d_c_shape)
  next
    case (Return rv s')
    from clean_2d_c_iter_Return_res [OF Return] T show ?thesis
      unfolding Return by (simp add: dims am)
  qed
  from sh a ov w wi out show ?thesis
    unfolding Let_def am prod.case by (simp only: simp_thms)
qed



subsection \<open>A run of the 1-D real kernel in \<^verbatim>\<open>float\<close> arithmetic\<close>


















subsection \<open>Runs in exact arithmetic that diverge at iteration 1\<close>



lemma sqrt_25_16: "sqrt (25 / 16) = 5 / 4"
  by (rule real_sqrt_unique) (simp_all add: power2_eq_square)

lemma float64_more_ints: "float64 8 = 8"
  using float64_int [of 8] by simp

subsection \<open>A run of the 1-D real kernel in \<^verbatim>\<open>double\<close> arithmetic\<close>

text \<open>
  The \<^verbatim>\<open>float64\<close> arrays \<^verbatim>\<open>res = [1, 1]\<close>, \<^verbatim>\<open>ker = [1, 0]\<close>, \<^verbatim>\<open>mdl = [0, 0]\<close> with
  \<^verbatim>\<open>gain = 8\<close>: at iteration 1 the score rises from 1 to 5, and every intermediate value
  is an integer.
\<close>

lemma rt_q: "kernel_q_1d_r float64 [1, 0] (length [1, 1 :: real]) = 1"
  by (simp add: kernel_q_1d_r_def ker_peak_1d_r_def upt_rec float64_ints)

lemma rt_iter0:
  "clean_1d_r_iter float64 [1, 0] 1 8 tol i (init_state [1, 1] [0, 0] 0 0) =
   Next \<lparr>st_res = [1, 1], st_mdl = [0, 0], st_score = 1, st_firstscore = 1, st_max = 1,
         st_argmax = 0, st_nargmax = 0\<rparr>"
  by (simp add: clean_1d_r_iter_def take_steps_1d_r_def init_state_def rstep_def upt_rec Let_def
      float64_ints float64_more_ints)

lemma rt_iter1:
  "clean_1d_r_iter float64 [1, 0] 1 8 tol i
     \<lparr>st_res = [1, 1], st_mdl = [0, 0], st_score = 1, st_firstscore = 1, st_max = 1,
         st_argmax = 0, st_nargmax = 0\<rparr> =
   Return (- int i) \<lparr>st_res = [1, 1], st_mdl = [0, 0], st_score = 1, st_firstscore = 1,
         st_max = - 7, st_argmax = 0, st_nargmax = 0\<rparr>"
  by (simp add: clean_1d_r_iter_def take_steps_1d_r_def undo_steps_1d_r_def undo_step_1d_r_def
      rstep_def upt_rec Let_def sqrt_25 float64_ints float64_more_ints)

lemma rt_state1:
  "iter_state_1d_r float64 [1, 1] [1, 0] [0, 0] 8 tol 1 =
   Some \<lparr>st_res = [1, 1], st_mdl = [0, 0], st_score = 1, st_firstscore = 1, st_max = 1,
         st_argmax = 0, st_nargmax = 0\<rparr>"
  unfolding iter_state_1d_r_def rt_q
  by (simp only: One_nat_def state_at.simps rt_iter0 option.case outcome.case)


subsection \<open>Second iterations in exact arithmetic\<close>

lemma ws_2d_r_state1:
  "iter_state_2d_r (\<lambda>x. x) [[0, 5], [0, 0]] [[1, 1 / 2], [0, 0]] [[0, 0], [0, 0]] 1 tol 1 =
     Some \<lparr>st_res = [[0, 5], [0, 0]], st_mdl = [[0, 0], [0, 0]], st_score = 5 / 2,
           st_firstscore = 5 / 2, st_max = 5, st_argmax = (0, 1), st_nargmax = (0, 1)\<rparr>"
  by (simp add: eval_2d_r sqrt_25_4 numeral_2_eq_2)

lemma ws_2d_r_q:
  "kernel_q_2d_r (\<lambda>x. x) [[1, 1 / 2], [0, 0]] (DIM_0 [[0, 5], [0, 0::real]])
     (DIM_1 [[0, 5], [0, 0::real]]) = 1"
  by (simp add: eval_2d_r)

lemma ws_2d_r_iter1:
  "clean_2d_r_iter (\<lambda>x. x) [[1, 1 / 2], [0, 0]] 1 1 (1 / 1000) i
     \<lparr>st_res = [[0, 5], [0, 0]], st_mdl = [[0, 0], [0, 0]], st_score = 5 / 2,
           st_firstscore = 5 / 2, st_max = 5, st_argmax = (0, 1), st_nargmax = (0, 1)\<rparr> =
   Next \<lparr>st_res = [[- (5 / 2), 0], [0, 0]], st_mdl = [[0, 5], [0, 0]], st_score = 5 / 4,
           st_firstscore = 5 / 2, st_max = - (5 / 2), st_argmax = (0, 0), st_nargmax = (0, 0)\<rparr>"
  by (simp add: eval_2d_r sqrt_25_16)

lemma ws_1d_c_state1:
  "iter_state_1d_c (\<lambda>x. x) [(0, 0), (0, 0), (3, 4), (0, 0)] [(1, 0), (0, 1), (0, 0), (0, 0)]
       [(0, 0), (0, 0), (0, 0), (0, 0)] 1 tol 1 =
     Some \<lparr>st_res = [(0, 0), (0, 0), (3, 4), (0, 0)],
           st_mdl = [(0, 0), (0, 0), (0, 0), (0, 0)], st_score = 5 / 2,
           st_firstscore = 5 / 2, st_max = (3, 4), st_argmax = 2, st_nargmax = 2\<rparr>"
  by (simp add: eval_1d_c sqrt_25_4 numeral_2_eq_2)

lemma ws_1d_c_q:
  "kernel_q_1d_c (\<lambda>x. x) [(1, 0), (0, 1), (0, 0), (0, 0)]
     (length [(0, 0), (0, 0), (3, 4), (0::real, 0::real)]) = (1, 0)"
  by (simp add: eval_1d_c)

lemma ws_1d_c_iter1:
  "clean_1d_c_iter (\<lambda>x. x) [(1, 0), (0, 1), (0, 0), (0, 0)] (1, 0) 1 (1 / 1000) i
     \<lparr>st_res = [(0, 0), (0, 0), (3, 4), (0, 0)],
           st_mdl = [(0, 0), (0, 0), (0, 0), (0, 0)], st_score = 5 / 2,
           st_firstscore = 5 / 2, st_max = (3, 4), st_argmax = 2, st_nargmax = 2\<rparr> =
   Return (int i) \<lparr>st_res = [(0, 0), (0, 0), (0, 0), (4, - 3)],
           st_mdl = [(0, 0), (0, 0), (3, 4), (0, 0)], st_score = 5 / 2,
           st_firstscore = 5 / 2, st_max = (4, - 3), st_argmax = 2, st_nargmax = 3\<rparr>"
  by (simp add: eval_1d_c sqrt_25_4)

subsection \<open>A residual with its peak in the last element\<close>

text \<open>
  The first iteration on a residual that is zero except for its last element, which is 1:
  the step is 0, the residual is left as it is, and the scan ends with the peak at the
  last index.
\<close>

lemma zeros_nth: "k < N \<Longrightarrow> (replicate N (0::real) @ [1]) ! k = 0"
  by (simp add: nth_append)

lemma zeros_last: "(replicate N (0::real) @ [1]) ! N = 1"
  by (simp add: nth_append)

lemma zeros_step:
  assumes r: "rnd 0 = 0" and k: "k < N"
  shows "take_step_1d_r rnd ker (Suc N) 0 0 k (replicate N 0 @ [1], 0, mm, mx, na) =
         (if 0 > mm then (replicate N 0 @ [1], 0, 0, 0, k) else (replicate N 0 @ [1], 0, mm, mx, na))"
proof -
  from k have w: "(k + 0) mod Suc N = k" by simp
  have u: "(replicate N (0::real) @ [1])[k := 0] = replicate N 0 @ [1]"
    using zeros_nth [OF k] by (metis list_update_id)
  show ?thesis
    unfolding take_step_1d_r.simps w Let_def by (simp add: zeros_nth [OF k] u r)
qed

lemma scan_zeros:
  assumes r: "rnd 0 = 0" and k: "1 \<le> k" "k \<le> N"
  shows "fold (take_step_1d_r rnd ker (Suc N) 0 0) [0..<k] (replicate N 0 @ [1], 0, - 1, 0, 0) =
         (replicate N 0 @ [1], 0, 0, 0, 0)"
  using k
proof (induction k)
  case 0
  then show ?case by simp
next
  case (Suc k)
  then have kN: "k < N" by simp
  show ?case
  proof (cases "k = 0")
    case True
    with zeros_step [where rnd = rnd, OF r kN, of ker "- 1" 0 0] show ?thesis
      by (simp del: take_step_1d_r.simps)
  next
    case False
    with Suc have IH: "fold (take_step_1d_r rnd ker (Suc N) 0 0) [0..<k]
        (replicate N 0 @ [1], 0, - 1, 0, 0) = (replicate N 0 @ [1], 0, 0, 0, 0)"
      by simp
    show ?thesis
      by (simp add: IH zeros_step [where rnd = rnd, OF r kN] del: take_step_1d_r.simps)
  qed
qed

lemma scan_last:
  assumes r: "rnd 0 = 0" "rnd 1 = 1" and N: "1 \<le> N"
  shows "take_steps_1d_r rnd ker (Suc N) 0 0 (replicate N 0 @ [1], 0, - 1, 0, 0) =
         (replicate N 0 @ [1], 1, 1, 1, N)"
proof -
  have w: "(N + 0) mod Suc N = N" by simp
  have u: "(replicate N (0::real) @ [1])[N := 1] = replicate N 0 @ [1]"
    using zeros_last [of N] by (metis list_update_id)
  have "take_step_1d_r rnd ker (Suc N) 0 0 N (replicate N 0 @ [1], 0, 0, 0, 0) =
        (replicate N 0 @ [1], 1, 1, 1, N)"
    unfolding take_step_1d_r.simps w Let_def by (simp add: zeros_last u r)
  with scan_zeros [where rnd = rnd, OF r(1) N order_refl, of ker] show ?thesis
    by (simp add: take_steps_1d_r_def del: take_step_1d_r.simps)
qed

lemma peak_at_end:
  assumes r: "rnd 0 = 0" "rnd 1 = 1" and N: "1 \<le> N"
  shows "map_option st_argmax
           (iter_state_1d_r rnd (replicate N 0 @ [1]) ker mdl gain tol 1) = Some N"
proof -
  have s: "rstep rnd gain 0 q = 0" for q by (simp add: rstep_def r)
  show ?thesis
    unfolding iter_state_1d_r_def clean_1d_r_iter_def init_state_def
    by (simp add: s scan_last [where rnd = rnd, OF r N] Let_def del: replicate.simps upt_Suc)
qed

section \<open>The scan of the kernel\<close>

text \<open>A scan that keeps the first strictly larger value ends at a maximum.\<close>

lemma peak_scan:
  fixes f :: "'i \<Rightarrow> 'a::linorder"
  assumes step: "\<And>n acc. stepf n acc = (if f n > fst acc then (f n, v n) else acc)"
  shows "fold stepf ns (m0, q0) = (m, q) \<Longrightarrow>
    m0 \<le> m \<and> (\<forall>n \<in> set ns. f n \<le> m) \<and>
    ((m, q) = (m0, q0) \<or> (\<exists>p \<in> set ns. m = f p \<and> q = v p \<and> m0 < f p))"
proof (induction ns arbitrary: m0 q0)
  case Nil
  then show ?case by simp
next
  case (Cons n ns)
  from Cons.prems have rest: "fold stepf ns (stepf n (m0, q0)) = (m, q)" by simp
  show ?case
  proof (cases "f n > m0")
    case True
    then have "stepf n (m0, q0) = (f n, v n)" by (simp add: step [of n "(m0, q0)"])
    with rest have "fold stepf ns (f n, v n) = (m, q)" by simp
    from Cons.IH [OF this] True show ?thesis by auto
  next
    case False
    then have "stepf n (m0, q0) = (m0, q0)" by (simp add: step [of n "(m0, q0)"])
    with rest have "fold stepf ns (m0, q0) = (m, q)" by simp
    from Cons.IH [OF this] False show ?thesis by auto
  qed
qed

lemma peak_scan_2d:
  fixes f :: "'i \<Rightarrow> 'j \<Rightarrow> 'a::linorder"
  assumes step: "\<And>n1 n2 acc. stepf n1 n2 acc = (if f n1 n2 > fst acc then (f n1 n2, v n1 n2) else acc)"
  shows "fold (\<lambda>n1. fold (stepf n1) ns2) ns1 (m0, q0) = (m, q) \<Longrightarrow>
    m0 \<le> m \<and> (\<forall>n1 \<in> set ns1. \<forall>n2 \<in> set ns2. f n1 n2 \<le> m) \<and>
    ((m, q) = (m0, q0) \<or>
     (\<exists>p1 \<in> set ns1. \<exists>p2 \<in> set ns2. m = f p1 p2 \<and> q = v p1 p2 \<and> m0 < f p1 p2))"
proof (induction ns1 arbitrary: m0 q0)
  case Nil
  then show ?case by simp
next
  case (Cons n1 ns1)
  obtain m1 q1 where row: "fold (stepf n1) ns2 (m0, q0) = (m1, q1)"
    by (cases "fold (stepf n1) ns2 (m0, q0)")
  from peak_scan [of "stepf n1" "f n1" "v n1", OF step row]
  have a: "m0 \<le> m1" "\<forall>n2 \<in> set ns2. f n1 n2 \<le> m1"
    "(m1, q1) = (m0, q0) \<or> (\<exists>p2 \<in> set ns2. m1 = f n1 p2 \<and> q1 = v n1 p2 \<and> m0 < f n1 p2)"
    by auto
  from Cons.prems row have "fold (\<lambda>n1. fold (stepf n1) ns2) ns1 (m1, q1) = (m, q)" by simp
  from Cons.IH [OF this]
  have b: "m1 \<le> m" "\<forall>n1 \<in> set ns1. \<forall>n2 \<in> set ns2. f n1 n2 \<le> m"
    "(m, q) = (m1, q1) \<or>
     (\<exists>p1 \<in> set ns1. \<exists>p2 \<in> set ns2. m = f p1 p2 \<and> q = v p1 p2 \<and> m1 < f p1 p2)"
    by auto
  from a(1) b(1) have "m0 \<le> m" by simp
  moreover from a(2) b(1,2) have "\<forall>k1 \<in> set (n1 # ns1). \<forall>n2 \<in> set ns2. f k1 n2 \<le> m"
    by auto
  moreover from a(1,3) b(3) have "(m, q) = (m0, q0) \<or>
     (\<exists>p1 \<in> set (n1 # ns1). \<exists>p2 \<in> set ns2. m = f p1 p2 \<and> q = v p1 p2 \<and> m0 < f p1 p2)"
    by (elim disjE) (auto, force+)
  ultimately show ?case by blast
qed

text \<open>With a positive squared magnitude somewhere, the scan ends at a maximal element.\<close>

lemma peak_exists_1d:
  fixes f :: "nat \<Rightarrow> real"
  assumes step: "\<And>n acc. stepf n acc = (if f n > fst acc then (f n, v n) else acc)"
    and nz: "\<exists>n<d. 0 < f n"
  shows "\<exists>p<d. (\<forall>n<d. f n \<le> f p) \<and> fold stepf [0..<d] (0, q0) = (f p, v p)"
proof -
  obtain m q where r: "fold stepf [0..<d] (0, q0) = (m, q)"
    by (cases "fold stepf [0..<d] (0, q0)")
  from peak_scan [of stepf f v, OF step r]
  have a: "\<forall>n<d. f n \<le> m"
    and b: "(m, q) = (0, q0) \<or> (\<exists>p<d. m = f p \<and> q = v p)"
    by auto
  from nz a have "0 < m" by (meson less_le_trans)
  with b obtain p where "p < d" "m = f p" "q = v p" by auto
  with a r show ?thesis by auto
qed

lemma peak_exists_2d:
  fixes f :: "nat \<Rightarrow> nat \<Rightarrow> real"
  assumes step: "\<And>n1 n2 acc. stepf n1 n2 acc =
      (if f n1 n2 > fst acc then (f n1 n2, v n1 n2) else acc)"
    and nz: "\<exists>n1<d1. \<exists>n2<d2. 0 < f n1 n2"
  shows "\<exists>p1<d1. \<exists>p2<d2. (\<forall>n1<d1. \<forall>n2<d2. f n1 n2 \<le> f p1 p2) \<and>
     fold (\<lambda>n1. fold (stepf n1) [0..<d2]) [0..<d1] (0, q0) = (f p1 p2, v p1 p2)"
proof -
  obtain m q where r: "fold (\<lambda>n1. fold (stepf n1) [0..<d2]) [0..<d1] (0, q0) = (m, q)"
    by (cases "fold (\<lambda>n1. fold (stepf n1) [0..<d2]) [0..<d1] (0, q0)")
  from peak_scan_2d [of stepf f v, OF step r]
  have a: "\<forall>n1<d1. \<forall>n2<d2. f n1 n2 \<le> m"
    and b: "(m, q) = (0, q0) \<or> (\<exists>p1<d1. \<exists>p2<d2. m = f p1 p2 \<and> q = v p1 p2)"
    by force+
  from nz a have "0 < m" by (meson less_le_trans)
  with b obtain p1 p2 where "p1 < d1" "p2 < d2" "m = f p1 p2" "q = v p1 p2" by auto
  with a r show ?thesis by blast
qed

lemma ker_step_1d_r_if:
  "ker_step_1d_r rnd ker n acc =
   (if rnd (ker ! n * ker ! n) > fst acc then (rnd (ker ! n * ker ! n), ker ! n) else acc)"
  by (cases acc) (simp add: Let_def)

lemma ker_step_2d_r_if:
  "ker_step_2d_r rnd ker n1 n2 acc =
   (if rnd (IND2 ker n1 n2 * IND2 ker n1 n2) > fst acc
    then (rnd (IND2 ker n1 n2 * IND2 ker n1 n2), IND2 ker n1 n2) else acc)"
  by (cases acc) (simp add: Let_def)

lemma ker_step_1d_c_if:
  "ker_step_1d_c rnd ker n acc =
   (if sqmod rnd (ker ! n) > fst acc then (sqmod rnd (ker ! n), ker ! n) else acc)"
  by (cases acc) (simp add: Let_def)

lemma ker_step_2d_c_if:
  "ker_step_2d_c rnd ker n1 n2 acc =
   (if sqmod rnd (IND2 ker n1 n2) > fst acc then (sqmod rnd (IND2 ker n1 n2), IND2 ker n1 n2)
    else acc)"
  by (cases acc) (simp add: Let_def)

lemma kernel_q_1d_r_peak:
  assumes nz: "\<exists>n<d. 0 < rnd (ker ! n * ker ! n)"
  shows "\<exists>p<d. (\<forall>n<d. rnd (ker ! n * ker ! n) \<le> rnd (ker ! p * ker ! p)) \<and>
           kernel_q_1d_r rnd ker d = rnd (1 / ker ! p)"
  using peak_exists_1d [of "ker_step_1d_r rnd ker" "\<lambda>n. rnd (ker ! n * ker ! n)" "\<lambda>n. ker ! n" d 0,
      OF ker_step_1d_r_if nz]
  by (auto simp: kernel_q_1d_r_def ker_peak_1d_r_def)

lemma kernel_q_2d_r_peak:
  assumes nz: "\<exists>n1<d1. \<exists>n2<d2. 0 < rnd (IND2 ker n1 n2 * IND2 ker n1 n2)"
  shows "\<exists>p1<d1. \<exists>p2<d2.
           (\<forall>n1<d1. \<forall>n2<d2. rnd (IND2 ker n1 n2 * IND2 ker n1 n2) \<le>
              rnd (IND2 ker p1 p2 * IND2 ker p1 p2)) \<and>
           kernel_q_2d_r rnd ker d1 d2 = rnd (1 / IND2 ker p1 p2)"
  using peak_exists_2d [of "ker_step_2d_r rnd ker"
      "\<lambda>n1 n2. rnd (IND2 ker n1 n2 * IND2 ker n1 n2)" "\<lambda>n1 n2. IND2 ker n1 n2" d1 d2 0,
      OF ker_step_2d_r_if nz]
  unfolding kernel_q_2d_r_def ker_peak_2d_r_def by force

lemma kernel_q_1d_c_peak:
  assumes nz: "\<exists>n<d. 0 < sqmod rnd (ker ! n)"
  shows "\<exists>p<d. (\<forall>n<d. sqmod rnd (ker ! n) \<le> sqmod rnd (ker ! p)) \<and>
           kernel_q_1d_c rnd ker d =
             (rnd (fst (ker ! p) / sqmod rnd (ker ! p)), rnd (- snd (ker ! p) / sqmod rnd (ker ! p)))"
  using peak_exists_1d [of "ker_step_1d_c rnd ker" "\<lambda>n. sqmod rnd (ker ! n)" "\<lambda>n. ker ! n" d
      "(0, 0)", OF ker_step_1d_c_if nz]
  unfolding kernel_q_1d_c_def ker_peak_1d_c_def by (force simp: split_beta)

lemma kernel_q_2d_c_peak:
  assumes nz: "\<exists>n1<d1. \<exists>n2<d2. 0 < sqmod rnd (IND2 ker n1 n2)"
  shows "\<exists>p1<d1. \<exists>p2<d2.
           (\<forall>n1<d1. \<forall>n2<d2. sqmod rnd (IND2 ker n1 n2) \<le> sqmod rnd (IND2 ker p1 p2)) \<and>
           kernel_q_2d_c rnd ker d1 d2 =
             (rnd (fst (IND2 ker p1 p2) / sqmod rnd (IND2 ker p1 p2)),
              rnd (- snd (IND2 ker p1 p2) / sqmod rnd (IND2 ker p1 p2)))"
  using peak_exists_2d [of "ker_step_2d_c rnd ker"
      "\<lambda>n1 n2. sqmod rnd (IND2 ker n1 n2)" "\<lambda>n1 n2. IND2 ker n1 n2" d1 d2 "(0, 0)",
      OF ker_step_2d_c_if nz]
  unfolding kernel_q_2d_c_def ker_peak_2d_c_def by (force simp: split_beta)

lemma conj_over_sqmod:
  "0 < sqmod (\<lambda>x. x) (zr, zi) \<Longrightarrow>
   Complex (zr / sqmod (\<lambda>x. x) (zr, zi)) (- zi / sqmod (\<lambda>x. x) (zr, zi)) =
   cnj (Complex zr zi) / (cmod (Complex zr zi))\<^sup>2"
proof -
  have m: "(cmod (Complex zr zi))\<^sup>2 = zr * zr + zi * zi"
    unfolding cmod_power2 by (simp add: power2_eq_square)
  have "cnj (Complex zr zi) / (cmod (Complex zr zi))\<^sup>2 =
        cnj (Complex zr zi) / of_real (zr * zr + zi * zi)"
    by (simp only: m [symmetric] of_real_power)
  also have "\<dots> = Complex (zr / (zr * zr + zi * zi)) (- zi / (zr * zr + zi * zi))"
    by (simp add: complex_eq_iff)
  finally show ?thesis by (simp add: sqmod_def)
qed



section \<open>The claims\<close>

text \<open>
  C10. With \<open>maxiter \<ge> 1\<close> no kernel returns 0. Both checks are guarded by
  \<^verbatim>\<open>score > 0\<close> and \<^verbatim>\<open>score\<close> starts at \<open>-1\<close>, so iteration 0 never returns; a later
  iteration \<open>i\<close> returns \<open>i\<close> or \<open>-i\<close>, and an exhausted budget returns \<open>maxiter\<close>.
\<close>

theorem clean_never_returns_zero:
  "1 \<le> maxiter \<Longrightarrow>
     fst (clean_1d_r rnd r1 k1 m1 gain maxiter tol) \<noteq> 0 \<and>
     fst (clean_2d_r rnd r2 k2 m2 gain maxiter tol) \<noteq> 0 \<and>
     fst (clean_1d_c rnd r3 k3 m3 gain maxiter tol) \<noteq> 0 \<and>
     fst (clean_2d_c rnd r4 k4 m4 gain maxiter tol) \<noteq> 0"
proof -
  assume pos: "1 \<le> maxiter"
  have "fst (clean_1d_r rnd r1 k1 m1 gain maxiter tol) \<noteq> 0"
    unfolding fst_clean_1d_r
    by (rule clean_loop_nonzero [where P = "\<lambda>s. st_score s > 0"])
      (use pos in \<open>auto dest: clean_1d_r_iter_Return simp: init_state_def\<close>)
  moreover have "fst (clean_2d_r rnd r2 k2 m2 gain maxiter tol) \<noteq> 0"
    unfolding fst_clean_2d_r
    by (rule clean_loop_nonzero [where P = "\<lambda>s. st_score s > 0"])
      (use pos in \<open>auto dest: clean_2d_r_iter_Return simp: init_state_def\<close>)
  moreover have "fst (clean_1d_c rnd r3 k3 m3 gain maxiter tol) \<noteq> 0"
    unfolding fst_clean_1d_c
    by (rule clean_loop_nonzero [where P = "\<lambda>s. st_score s > 0"])
      (use pos in \<open>auto dest: clean_1d_c_iter_Return simp: init_state_def\<close>)
  moreover have "fst (clean_2d_c rnd r4 k4 m4 gain maxiter tol) \<noteq> 0"
    unfolding fst_clean_2d_c
    by (rule clean_loop_nonzero [where P = "\<lambda>s. st_score s > 0"])
      (use pos in \<open>auto dest: clean_2d_c_iter_Return simp: init_state_def\<close>)
  ultimately show ?thesis by simp
qed

theorem clean_never_returns_zero_witness:
  "(1::int) \<le> 1 \<and>
   fst (clean_1d_r (\<lambda>x. x) [0, 0, 5, 0] [1, 0, 0, 0] [0, 0, 0, 0] 1 1 (1 / 1000)) \<noteq> 0 \<and>
   fst (clean_2d_r (\<lambda>x. x) [[0, 0], [5, 0]] [[1, 0], [0, 0]] [[0, 0], [0, 0]] 1 1 (1 / 1000)) \<noteq> 0 \<and>
   fst (clean_1d_c (\<lambda>x. x) [(0, 0), (3, 4)] [(1, 0), (0, 0)] [(0, 0), (0, 0)] 1 1 (1 / 1000)) \<noteq> 0 \<and>
   fst (clean_2d_c (\<lambda>x. x) [[(0, 0), (3, 4)]] [[(1, 0), (0, 0)]] [[(0, 0), (0, 0)]] 1 1 (1 / 1000)) \<noteq> 0"
  using clean_never_returns_zero [of 1 "\<lambda>x. x" "[0, 0, 5, 0]" "[1, 0, 0, 0]" "[0, 0, 0, 0]" 1
      "1 / 1000" "[[0, 0], [5, 0]]" "[[1, 0], [0, 0]]" "[[0, 0], [0, 0]]"
      "[(0, 0), (3, 4)]" "[(1, 0), (0, 0)]" "[(0, 0), (0, 0)]"
      "[[(0, 0), (3, 4)]]" "[[(1, 0), (0, 0)]]" "[[(0, 0), (0, 0)]]"]
  by simp

text \<open>
  C8. When none of the first \<open>maxiter\<close> iterations returns (each falls through to the
  next, so the state at the start of iteration \<open>maxiter\<close> exists), every kernel returns
  exactly \<open>maxiter\<close> and the buffers are those the last executed iteration left.
\<close>

theorem budget_exhausted:
  "(iter_state_1d_r rnd r1 k1 m1 gain tol (nat maxiter) = Some s1 \<longrightarrow>
      clean_1d_r rnd r1 k1 m1 gain maxiter tol = (maxiter, st_res s1, st_mdl s1)) \<and>
   (iter_state_2d_r rnd r2 k2 m2 gain tol (nat maxiter) = Some s2 \<longrightarrow>
      clean_2d_r rnd r2 k2 m2 gain maxiter tol = (maxiter, st_res s2, st_mdl s2)) \<and>
   (iter_state_1d_c rnd r3 k3 m3 gain tol (nat maxiter) = Some s3 \<longrightarrow>
      clean_1d_c rnd r3 k3 m3 gain maxiter tol = (maxiter, st_res s3, st_mdl s3)) \<and>
   (iter_state_2d_c rnd r4 k4 m4 gain tol (nat maxiter) = Some s4 \<longrightarrow>
      clean_2d_c rnd r4 k4 m4 gain maxiter tol = (maxiter, st_res s4, st_mdl s4))"
  by (simp add: iter_state_1d_r_def clean_1d_r_def iter_state_2d_r_def clean_2d_r_def
      iter_state_1d_c_def clean_1d_c_def iter_state_2d_c_def clean_2d_c_def clean_loop_exhaust0)

theorem budget_exhausted_witness:
  "iter_state_1d_r (\<lambda>x. x) [0, 0, 5, 0] [1, 0, 0, 0] [0, 0, 0, 0] 1 (1 / 1000) (nat 1) =
     Some \<lparr>st_res = [0, 0, 5, 0], st_mdl = [0, 0, 0, 0], st_score = 5 / 2,
           st_firstscore = 5 / 2, st_max = 5, st_argmax = 2, st_nargmax = 2\<rparr> \<and>
   clean_1d_r (\<lambda>x. x) [0, 0, 5, 0] [1, 0, 0, 0] [0, 0, 0, 0] 1 1 (1 / 1000) =
     (1, [0, 0, 5, 0], [0, 0, 0, 0]) \<and>
   iter_state_2d_r (\<lambda>x. x) [[0, 0], [5, 0]] [[1, 0], [0, 0]] [[0, 0], [0, 0]] 1 (1 / 1000) (nat 1) =
     Some \<lparr>st_res = [[0, 0], [5, 0]], st_mdl = [[0, 0], [0, 0]], st_score = 5 / 2,
           st_firstscore = 5 / 2, st_max = 5, st_argmax = (1, 0), st_nargmax = (1, 0)\<rparr> \<and>
   clean_2d_r (\<lambda>x. x) [[0, 0], [5, 0]] [[1, 0], [0, 0]] [[0, 0], [0, 0]] 1 1 (1 / 1000) =
     (1, [[0, 0], [5, 0]], [[0, 0], [0, 0]]) \<and>
   iter_state_1d_c (\<lambda>x. x) [(0, 0), (0, 0), (3, 4), (0, 0)] [(1, 0), (0, 0), (0, 0), (0, 0)]
       [(0, 0), (0, 0), (0, 0), (0, 0)] 1 (1 / 1000) (nat 1) =
     Some \<lparr>st_res = [(0, 0), (0, 0), (3, 4), (0, 0)],
           st_mdl = [(0, 0), (0, 0), (0, 0), (0, 0)], st_score = 5 / 2,
           st_firstscore = 5 / 2, st_max = (3, 4), st_argmax = 2, st_nargmax = 2\<rparr> \<and>
   clean_1d_c (\<lambda>x. x) [(0, 0), (0, 0), (3, 4), (0, 0)] [(1, 0), (0, 0), (0, 0), (0, 0)]
       [(0, 0), (0, 0), (0, 0), (0, 0)] 1 1 (1 / 1000) =
     (1, [(0, 0), (0, 0), (3, 4), (0, 0)], [(0, 0), (0, 0), (0, 0), (0, 0)]) \<and>
   iter_state_2d_c (\<lambda>x. x) [[(0, 0), (0, 0)], [(3, 4), (0, 0)]]
       [[(1, 0), (0, 0)], [(0, 0), (0, 0)]] [[(0, 0), (0, 0)], [(0, 0), (0, 0)]] 1 (1 / 1000) (nat 1) =
     Some \<lparr>st_res = [[(0, 0), (0, 0)], [(3, 4), (0, 0)]],
           st_mdl = [[(0, 0), (0, 0)], [(0, 0), (0, 0)]], st_score = 5 / 2,
           st_firstscore = 5 / 2, st_max = (3, 4), st_argmax = (1, 0), st_nargmax = (1, 0)\<rparr> \<and>
   clean_2d_c (\<lambda>x. x) [[(0, 0), (0, 0)], [(3, 4), (0, 0)]]
       [[(1, 0), (0, 0)], [(0, 0), (0, 0)]] [[(0, 0), (0, 0)], [(0, 0), (0, 0)]] 1 1 (1 / 1000) =
     (1, [[(0, 0), (0, 0)], [(3, 4), (0, 0)]], [[(0, 0), (0, 0)], [(0, 0), (0, 0)]])"
proof -
  have h1: "iter_state_1d_r (\<lambda>x. x) [0, 0, 5, 0] [1, 0, 0, 0] [0, 0, 0, 0] 1 (1 / 1000) (nat 1) =
     Some \<lparr>st_res = [0, 0, 5, 0], st_mdl = [0, 0, 0, 0], st_score = 5 / 2,
           st_firstscore = 5 / 2, st_max = 5, st_argmax = 2, st_nargmax = 2\<rparr>"
    by (simp add: eval_1d_r sqrt_25_4 numeral_2_eq_2)
  have h2: "iter_state_2d_r (\<lambda>x. x) [[0, 0], [5, 0]] [[1, 0], [0, 0]] [[0, 0], [0, 0]] 1
       (1 / 1000) (nat 1) =
     Some \<lparr>st_res = [[0, 0], [5, 0]], st_mdl = [[0, 0], [0, 0]], st_score = 5 / 2,
           st_firstscore = 5 / 2, st_max = 5, st_argmax = (1, 0), st_nargmax = (1, 0)\<rparr>"
    by (simp add: eval_2d_r sqrt_25_4 numeral_2_eq_2)
  have h3: "iter_state_1d_c (\<lambda>x. x) [(0, 0), (0, 0), (3, 4), (0, 0)]
       [(1, 0), (0, 0), (0, 0), (0, 0)] [(0, 0), (0, 0), (0, 0), (0, 0)] 1 (1 / 1000) (nat 1) =
     Some \<lparr>st_res = [(0, 0), (0, 0), (3, 4), (0, 0)],
           st_mdl = [(0, 0), (0, 0), (0, 0), (0, 0)], st_score = 5 / 2,
           st_firstscore = 5 / 2, st_max = (3, 4), st_argmax = 2, st_nargmax = 2\<rparr>"
    by (simp add: eval_1d_c sqrt_25_4 numeral_2_eq_2)
  have h4: "iter_state_2d_c (\<lambda>x. x) [[(0, 0), (0, 0)], [(3, 4), (0, 0)]]
       [[(1, 0), (0, 0)], [(0, 0), (0, 0)]] [[(0, 0), (0, 0)], [(0, 0), (0, 0)]] 1 (1 / 1000) (nat 1) =
     Some \<lparr>st_res = [[(0, 0), (0, 0)], [(3, 4), (0, 0)]],
           st_mdl = [[(0, 0), (0, 0)], [(0, 0), (0, 0)]], st_score = 5 / 2,
           st_firstscore = 5 / 2, st_max = (3, 4), st_argmax = (1, 0), st_nargmax = (1, 0)\<rparr>"
    by (simp add: iter_state_2d_c_def eval_2d_c sqrt_25_4 numeral_2_eq_2)
  note b = budget_exhausted [where rnd = "\<lambda>x. x" and maxiter = 1 and gain = 1 and tol = "1 / 1000"
      and ?r1.0 = "[0, 0, 5, 0]" and ?k1.0 = "[1, 0, 0, 0]" and ?m1.0 = "[0, 0, 0, 0]"
      and ?r2.0 = "[[0, 0], [5, 0]]" and ?k2.0 = "[[1, 0], [0, 0]]" and ?m2.0 = "[[0, 0], [0, 0]]"
      and ?r3.0 = "[(0, 0), (0, 0), (3, 4), (0, 0)]" and ?k3.0 = "[(1, 0), (0, 0), (0, 0), (0, 0)]"
      and ?m3.0 = "[(0, 0), (0, 0), (0, 0), (0, 0)]"
      and ?r4.0 = "[[(0, 0), (0, 0)], [(3, 4), (0, 0)]]"
      and ?k4.0 = "[[(1, 0), (0, 0)], [(0, 0), (0, 0)]]"
      and ?m4.0 = "[[(0, 0), (0, 0)], [(0, 0), (0, 0)]]"]
  from b h1 have c1: "clean_1d_r (\<lambda>x. x) [0, 0, 5, 0] [1, 0, 0, 0] [0, 0, 0, 0] 1 1 (1 / 1000) =
     (1, [0, 0, 5, 0], [0, 0, 0, 0])" by simp
  from b h2 have c2: "clean_2d_r (\<lambda>x. x) [[0, 0], [5, 0]] [[1, 0], [0, 0]] [[0, 0], [0, 0]] 1 1
     (1 / 1000) = (1, [[0, 0], [5, 0]], [[0, 0], [0, 0]])" by simp
  from b h3 have c3: "clean_1d_c (\<lambda>x. x) [(0, 0), (0, 0), (3, 4), (0, 0)]
     [(1, 0), (0, 0), (0, 0), (0, 0)] [(0, 0), (0, 0), (0, 0), (0, 0)] 1 1 (1 / 1000) =
     (1, [(0, 0), (0, 0), (3, 4), (0, 0)], [(0, 0), (0, 0), (0, 0), (0, 0)])" by simp
  from b h4 have c4: "clean_2d_c (\<lambda>x. x) [[(0, 0), (0, 0)], [(3, 4), (0, 0)]]
     [[(1, 0), (0, 0)], [(0, 0), (0, 0)]] [[(0, 0), (0, 0)], [(0, 0), (0, 0)]] 1 1 (1 / 1000) =
     (1, [[(0, 0), (0, 0)], [(3, 4), (0, 0)]], [[(0, 0), (0, 0)], [(0, 0), (0, 0)]])" by simp
  from h1 c1 h2 c2 h3 c3 h4 c4 show ?thesis by (simp only: simp_thms)
qed

text \<open>
  C9. The scenario \<^verbatim>\<open>dim=4, kernel=[1,0,0,0], residual=[0,0,5,0], model=[0,0,0,0],
  gain=1.0, max_iterations=1\<close> of the 1-D real kernel, for every element type in which
  the seven numbers that occur are representable: \<open>q = 1\<close>; \<^verbatim>\<open>max\<close> starts at 0, so
  the step of iteration 0 is 0 and the iteration changes neither buffer; its scan leaves
  the running peak at index 2 (value 5, score 5/2); and \<^verbatim>\<open>clean\<close> returns 1.
\<close>

theorem zero_seed_scenario:
  assumes "exact_on rnd [0, 1, 4, 5, 25, 25 / 4, 5 / 2]"
  shows "kernel_q_1d_r rnd [1, 0, 0, 0] 4 = 1 \<and>
         rstep rnd 1 (st_max (init_state [0, 0, 5, 0] [0, 0, 0, 0] (0::real) (0::nat)))
           (kernel_q_1d_r rnd [1, 0, 0, 0] 4) = 0 \<and>
         iter_state_1d_r rnd [0, 0, 5, 0] [1, 0, 0, 0] [0, 0, 0, 0] 1 tol 1 =
           Some \<lparr>st_res = [0, 0, 5, 0], st_mdl = [0, 0, 0, 0], st_score = 5 / 2,
                 st_firstscore = 5 / 2, st_max = 5, st_argmax = 2, st_nargmax = 2\<rparr> \<and>
         clean_1d_r rnd [0, 0, 5, 0] [1, 0, 0, 0] [0, 0, 0, 0] 1 1 tol =
           (1, [0, 0, 5, 0], [0, 0, 0, 0])"
proof -
  from assms have r: "rnd 0 = 0" "rnd 1 = 1" "rnd 4 = 4" "rnd 5 = 5" "rnd 25 = 25"
    "rnd (25 / 4) = 25 / 4" "rnd (5 / 2) = 5 / 2"
    by (simp_all add: exact_on_def)
  have q: "kernel_q_1d_r rnd [1, 0, 0, 0] 4 = 1"
    by (simp add: kernel_q_1d_r_def ker_peak_1d_r_def upt_rec r)
  have s: "rstep rnd 1 0 1 = 0" by (simp add: rstep_def r)
  have it: "clean_1d_r_iter rnd [1, 0, 0, 0] 1 1 tol 0
       (init_state [0, 0, 5, 0] [0, 0, 0, 0] 0 0) =
     Next \<lparr>st_res = [0, 0, 5, 0], st_mdl = [0, 0, 0, 0], st_score = 5 / 2,
           st_firstscore = 5 / 2, st_max = 5, st_argmax = 2, st_nargmax = 2\<rparr>"
    by (simp add: clean_1d_r_iter_def take_steps_1d_r_def init_state_def s upt_rec r sqrt_25_4
        Let_def numeral_2_eq_2)
  have len: "length [0, 0, 5, 0::real] = 4" by simp
  have s0: "st_max (init_state [0, 0, 5, 0] [0, 0, 0, 0] (0::real) (0::nat)) = 0"
    by (simp add: init_state_def)
  have st: "iter_state_1d_r rnd [0, 0, 5, 0] [1, 0, 0, 0] [0, 0, 0, 0] 1 tol 1 =
           Some \<lparr>st_res = [0, 0, 5, 0], st_mdl = [0, 0, 0, 0], st_score = 5 / 2,
                 st_firstscore = 5 / 2, st_max = 5, st_argmax = 2, st_nargmax = 2\<rparr>"
    unfolding iter_state_1d_r_def len q by (simp add: it)
  have rv: "clean_1d_r rnd [0, 0, 5, 0] [1, 0, 0, 0] [0, 0, 0, 0] 1 1 tol =
           (1, [0, 0, 5, 0], [0, 0, 0, 0])"
    unfolding clean_1d_r_def len q by (simp add: it clean_loop.simps)
  from q s st rv show ?thesis
    unfolding s0 by simp
qed

theorem zero_seed_scenario_witness:
  "exact_on float32 [0, 1, 4, 5, 25, 25 / 4, 5 / 2] \<and>
   kernel_q_1d_r float32 [1, 0, 0, 0] 4 = 1 \<and>
   rstep float32 1 (st_max (init_state [0, 0, 5, 0] [0, 0, 0, 0] (0::real) (0::nat)))
     (kernel_q_1d_r float32 [1, 0, 0, 0] 4) = 0 \<and>
   iter_state_1d_r float32 [0, 0, 5, 0] [1, 0, 0, 0] [0, 0, 0, 0] 1 (1 / 1000) 1 =
     Some \<lparr>st_res = [0, 0, 5, 0], st_mdl = [0, 0, 0, 0], st_score = 5 / 2,
           st_firstscore = 5 / 2, st_max = 5, st_argmax = 2, st_nargmax = 2\<rparr> \<and>
   clean_1d_r float32 [0, 0, 5, 0] [1, 0, 0, 0] [0, 0, 0, 0] 1 1 (1 / 1000) =
     (1, [0, 0, 5, 0], [0, 0, 0, 0])"
proof -
  have h: "exact_on float32 [0, 1, 4, 5, 25, 25 / 4, 5 / 2]"
    using fl_int [of 0 24] fl_int [of 1 24] fl_int [of 4 24] fl_int [of 5 24] fl_int [of 25 24]
      fl_dyadic [of 25 24 2] fl_dyadic [of 5 24 1]
    by (simp add: exact_on_def float32_def)
  from h zero_seed_scenario [OF h, of "1 / 1000"] show ?thesis by (rule conjI)
qed

text \<open>
  C5. The wrapper checks the ranks and extents of \<^verbatim>\<open>ker\<close> and \<^verbatim>\<open>mdl\<close> only inside
  \<^verbatim>\<open>if (RANK(res) == 1)\<close> and \<^verbatim>\<open>else if (RANK(res) == 2)\<close>; there is no final
  \<^verbatim>\<open>else\<close>. A residual of rank 3 passes with \<^verbatim>\<open>rank = 0\<close>, whatever the shapes of the
  other two arrays, and the dispatch (\<^verbatim>\<open>if (rank == 1) ... else ...\<close>) calls the 2-D
  kernel.
\<close>

theorem rank_not_validated:
  "clean \<lparr>nd = 3, dimensions = [2, 2, 2], type_num = NPY_DOUBLE\<rparr>
         \<lparr>nd = 1, dimensions = [5], type_num = NPY_DOUBLE\<rparr>
         \<lparr>nd = 2, dimensions = [3, 3], type_num = NPY_DOUBLE\<rparr> = Inr (T_double, Clean_2d_r)"
  by (simp add: clean_def check_shapes_def RANK_def DIM_def TYPE_NUM_def)

theorem rank_not_validated_witness:
  "check_shapes \<lparr>nd = 3, dimensions = [2, 2, 2], type_num = NPY_DOUBLE\<rparr>
         \<lparr>nd = 1, dimensions = [5], type_num = NPY_DOUBLE\<rparr>
         \<lparr>nd = 2, dimensions = [3, 3], type_num = NPY_DOUBLE\<rparr> = Inr 0 \<and>
   \<not> (TYPE_NUM \<lparr>nd = 3, dimensions = [2, 2, 2], type_num = NPY_DOUBLE\<rparr> \<noteq>
        TYPE_NUM \<lparr>nd = 1, dimensions = [5], type_num = NPY_DOUBLE\<rparr> \<or>
      TYPE_NUM \<lparr>nd = 3, dimensions = [2, 2, 2], type_num = NPY_DOUBLE\<rparr> \<noteq>
        TYPE_NUM \<lparr>nd = 2, dimensions = [3, 3], type_num = NPY_DOUBLE\<rparr>) \<and>
   clean \<lparr>nd = 3, dimensions = [2, 2, 2], type_num = NPY_DOUBLE\<rparr>
         \<lparr>nd = 1, dimensions = [5], type_num = NPY_DOUBLE\<rparr>
         \<lparr>nd = 2, dimensions = [3, 3], type_num = NPY_DOUBLE\<rparr> = Inr (T_double, Clean_2d_r)"
  using rank_not_validated by (simp add: check_shapes_def RANK_def TYPE_NUM_def)

text \<open>
  C1 (a defect of the code). The claim holds for \<^verbatim>\<open>clean_1d_r\<close>, \<^verbatim>\<open>clean_2d_r\<close> and
  \<^verbatim>\<open>clean_1d_c\<close>, whose diverged branch ends in \<^verbatim>\<open>return -i;\<close>. In \<^verbatim>\<open>clean_2d_c\<close> that
  statement is missing. On the arrays \<open>res = [[3-4i],[3+4i]]\<close>, \<open>ker = [[1],[-i]]\<close>,
  \<open>mdl = 0\<close> of shape (2,1), with \<^verbatim>\<open>gain = 1, maxiter = 3, tol = 0.001\<close>,
  iteration 1 finds the score risen from 5 to 7 and undoes its step, but then commits
  the score 7 and the new peak position (1,0) (the state at the start of iteration 2),
  runs iteration 2 from there, and the call returns 3 with changed buffers instead of
  \<open>-1\<close> with the buffers of the start of iteration 1.
\<close>

theorem clean_2d_c_goes_on_after_divergence:
  "iter_state_2d_c float64 [[(3, - 4)], [(3, 4)]] [[(1, 0)], [(0, - 1)]] [[(0, 0)], [(0, 0)]]
      1 (1 / 1000) 1 =
    Some \<lparr>st_res = [[(3, - 4)], [(3, 4)]], st_mdl = [[(0, 0)], [(0, 0)]], st_score = 5,
           st_firstscore = 5, st_max = (3, - 4), st_argmax = (0, 0), st_nargmax = (0, 0)\<rparr> \<and>
   iter_state_2d_c float64 [[(3, - 4)], [(3, 4)]] [[(1, 0)], [(0, - 1)]] [[(0, 0)], [(0, 0)]]
      1 (1 / 1000) 2 =
    Some \<lparr>st_res = [[(3, - 4)], [(3, 4)]], st_mdl = [[(0, 0)], [(0, 0)]], st_score = 7,
           st_firstscore = 5, st_max = (7, 7), st_argmax = (1, 0), st_nargmax = (1, 0)\<rparr> \<and>
   clean_2d_c float64 [[(3, - 4)], [(3, 4)]] [[(1, 0)], [(0, - 1)]] [[(0, 0)], [(0, 0)]]
      1 3 (1 / 1000) = (3, [[(- 4, 3)], [(- 4, - 3)]], [[(0, 0)], [(7, 7)]])"
proof -
  have s3: "state_at (clean_2d_c_iter float64 [[(1, 0)], [(0, - 1)]] (1, 0) 1 (1 / 1000))
       (init_state [[(3, - 4)], [(3, 4)]] [[(0, 0)], [(0, 0)]] (0, 0) (0, 0)) (nat 3) =
    Some \<lparr>st_res = [[(- 4, 3)], [(- 4, - 3)]], st_mdl = [[(0, 0)], [(7, 7)]], st_score = 5,
           st_firstscore = 5, st_max = (- 4, - 3), st_argmax = (1, 0), st_nargmax = (1, 0)\<rparr>"
    by (simp only: nat_numeral numeral_3_eq_3 state_at.simps div_iter0 div_iter1 div_iter2
        option.case outcome.case)
  have rv: "clean_2d_c float64 [[(3, - 4)], [(3, 4)]] [[(1, 0)], [(0, - 1)]] [[(0, 0)], [(0, 0)]]
      1 3 (1 / 1000) = (3, [[(- 4, 3)], [(- 4, - 3)]], [[(0, 0)], [(7, 7)]])"
    unfolding clean_2d_c_def div_q by (simp add: clean_loop_exhaust0 [OF s3])
  from div_state1 [of "1 / 1000"] div_state2 [of "1 / 1000"] rv show ?thesis
    by (simp only: simp_thms)
qed

text \<open>
  C3 (the same defect). In the other three kernels a return through the convergence
  check at iteration \<open>i\<close> means that no earlier iteration diverged or converged. In
  \<^verbatim>\<open>clean_2d_c\<close>, on the arrays \<open>res = [[0,1,0,0]]\<close>, \<open>ker = [[1,-1,1/2,1]]\<close>, \<open>mdl = 0\<close> of
  shape (1,4), with \<^verbatim>\<open>gain = 1, maxiter = 200,
  tol = 0.001\<close>, the call returns 2 through the convergence check although the
  inequality already held at iteration 1, where the score rose from 1/2 to 3/4:
  \<open>(1/2 - 3/4) / (1/2) < 0.001\<close>. The score \<open>3/4\<close> that iteration 2 compares with is the
  score of the step that iteration 1 undid.
\<close>

theorem clean_2d_c_converges_after_divergence:
  "iter_state_2d_c float64 [[(0, 0), (1, 0), (0, 0), (0, 0)]]
      [[(1, 0), (- 1, 0), (1 / 2, 0), (1, 0)]] [[(0, 0), (0, 0), (0, 0), (0, 0)]]
      1 (1 / 1000) 1 =
    Some \<lparr>st_res = [[(0, 0), (1, 0), (0, 0), (0, 0)]],
           st_mdl = [[(0, 0), (0, 0), (0, 0), (0, 0)]],
           st_score = 1 / 2, st_firstscore = 1 / 2, st_max = (1, 0), st_argmax = (0, 1),
           st_nargmax = (0, 1)\<rparr> \<and>
   iter_state_2d_c float64 [[(0, 0), (1, 0), (0, 0), (0, 0)]]
      [[(1, 0), (- 1, 0), (1 / 2, 0), (1, 0)]] [[(0, 0), (0, 0), (0, 0), (0, 0)]]
      1 (1 / 1000) 2 =
    Some \<lparr>st_res = [[(0, 0), (1, 0), (0, 0), (0, 0)]],
           st_mdl = [[(0, 0), (0, 0), (0, 0), (0, 0)]],
           st_score = 3 / 4, st_firstscore = 1 / 2, st_max = (1, 0), st_argmax = (0, 2),
           st_nargmax = (0, 2)\<rparr> \<and>
   float64 (float64 (1 / 2 - 3 / 4) / (1 / 2)) < 1 / 1000 \<and>
   clean_2d_c float64 [[(0, 0), (1, 0), (0, 0), (0, 0)]]
      [[(1, 0), (- 1, 0), (1 / 2, 0), (1, 0)]] [[(0, 0), (0, 0), (0, 0), (0, 0)]]
      1 200 (1 / 1000) =
    (2, [[(- (1 / 2), 0), (0, 0), (- 1, 0), (1, 0)]], [[(0, 0), (0, 0), (1, 0), (0, 0)]])"
proof -
  have ineq: "float64 (float64 (1 / 2 - 3 / 4) / (1 / 2)) < 1 / 1000"
    using float64_dyadic [of "- 1" 2] float64_dyadic [of "- 1" 1] by simp
  from conv_state1 [of "1 / 1000"] conv_state2 [of "1 / 1000"] ineq conv_run show ?thesis
    by (simp only: simp_thms)
qed

text \<open>
  C4 (the same defect). In the other three kernels a score is committed only when it
  did not rise. In \<^verbatim>\<open>clean_2d_c\<close>, on the same arrays and arguments as for C3, the score
  committed by iteration 0 is 1/2 and the score committed by iteration 1 is 3/4. The
  rise is in the buffers too: the RMS of the residual is 1/2 when iteration 0 has been
  committed, and 3/4 when the call has returned 2 with the changes of iteration 2 kept.
\<close>

theorem clean_2d_c_commits_risen_score:
  "map_option st_score
     (iter_state_2d_c float64 [[(0, 0), (1, 0), (0, 0), (0, 0)]]
        [[(1, 0), (- 1, 0), (1 / 2, 0), (1, 0)]] [[(0, 0), (0, 0), (0, 0), (0, 0)]]
        1 (1 / 1000) 1) = Some (1 / 2) \<and>
   map_option st_score
     (iter_state_2d_c float64 [[(0, 0), (1, 0), (0, 0), (0, 0)]]
        [[(1, 0), (- 1, 0), (1 / 2, 0), (1, 0)]] [[(0, 0), (0, 0), (0, 0), (0, 0)]]
        1 (1 / 1000) 2) = Some (3 / 4) \<and>
   map_option (rms_2d_c \<circ> st_res)
     (iter_state_2d_c float64 [[(0, 0), (1, 0), (0, 0), (0, 0)]]
        [[(1, 0), (- 1, 0), (1 / 2, 0), (1, 0)]] [[(0, 0), (0, 0), (0, 0), (0, 0)]]
        1 (1 / 1000) 1) = Some (1 / 2) \<and>
   (case clean_2d_c float64 [[(0, 0), (1, 0), (0, 0), (0, 0)]]
        [[(1, 0), (- 1, 0), (1 / 2, 0), (1, 0)]] [[(0, 0), (0, 0), (0, 0), (0, 0)]]
        1 200 (1 / 1000) of (rv, res, mdl) \<Rightarrow> (rv, rms_2d_c res)) = (2, 3 / 4)"
proof -
  have "map_option st_score
     (iter_state_2d_c float64 [[(0, 0), (1, 0), (0, 0), (0, 0)]]
        [[(1, 0), (- 1, 0), (1 / 2, 0), (1, 0)]] [[(0, 0), (0, 0), (0, 0), (0, 0)]]
        1 (1 / 1000) 1) = Some (1 / 2)"
    unfolding conv_state1 by simp
  moreover have "map_option st_score
     (iter_state_2d_c float64 [[(0, 0), (1, 0), (0, 0), (0, 0)]]
        [[(1, 0), (- 1, 0), (1 / 2, 0), (1, 0)]] [[(0, 0), (0, 0), (0, 0), (0, 0)]]
        1 (1 / 1000) 2) = Some (3 / 4)"
    unfolding conv_state2 by simp
  moreover have "map_option (rms_2d_c \<circ> st_res)
     (iter_state_2d_c float64 [[(0, 0), (1, 0), (0, 0), (0, 0)]]
        [[(1, 0), (- 1, 0), (1 / 2, 0), (1, 0)]] [[(0, 0), (0, 0), (0, 0), (0, 0)]]
        1 (1 / 1000) 1) = Some (1 / 2)"
    unfolding conv_state1 by (simp add: rms_2d_c_def DIM_0_def DIM_1_def sqrt_1_4)
  moreover have "(case clean_2d_c float64 [[(0, 0), (1, 0), (0, 0), (0, 0)]]
        [[(1, 0), (- 1, 0), (1 / 2, 0), (1, 0)]] [[(0, 0), (0, 0), (0, 0), (0, 0)]]
        1 200 (1 / 1000) of (rv, res, mdl) \<Rightarrow> (rv, rms_2d_c res)) = (2, 3 / 4)"
    unfolding conv_run by (simp add: rms_2d_c_def DIM_0_def DIM_1_def sqrt_9_16)
  ultimately show ?thesis by (simp only: simp_thms)
qed

text \<open>
  C7, the sentence as it stands. The source computes the wrapped index in \<^verbatim>\<open>int\<close>, and
  for an extent above \<open>2\<^sup>3\<^sup>0\<close> the sum \<^verbatim>\<open>n + argmax\<close> can exceed \<open>2\<^sup>3\<^sup>1 - 1\<close>. Take
  \<^verbatim>\<open>double\<close> arrays of extent \<open>2\<^sup>3\<^sup>0 + 1\<close> whose residual and kernel are zero except for a
  1 in the last element: iteration 0 (whose sums are \<^verbatim>\<open>n + 0\<close>) leaves \<^verbatim>\<open>argmax = 2^30\<close>, and
  in iteration 1 the last offset \<^verbatim>\<open>n = 2^30\<close> gives the sum \<open>2\<^sup>3\<^sup>1\<close>, which overflows;
  \<^verbatim>\<open>(n + argmax) % dim\<close> is then \<open>-(2\<^sup>3\<^sup>0 - 1)\<close>, an index before the start of the array.
\<close>

theorem wrapped_index_overflows:
  "map_option st_argmax
     (iter_state_1d_r float64 (replicate (2 ^ 30) 0 @ [1]) (replicate (2 ^ 30) 0 @ [1])
        (replicate (2 ^ 30 + 1) 0) 1 (1 / 1000) 1) = Some (2 ^ 30) \<and>
   wrap_index (2 ^ 30) (2 ^ 30) (int (length (replicate (2 ^ 30) (0::real) @ [1]))) = - (2 ^ 30 - 1)"
proof -
  have "(1::nat) \<le> 2 ^ 30" by simp
  from peak_at_end [where rnd = float64, OF float64_ints(1,2) this] have "map_option st_argmax
     (iter_state_1d_r float64 (replicate (2 ^ 30) 0 @ [1]) (replicate (2 ^ 30) 0 @ [1])
        (replicate (2 ^ 30 + 1) 0) 1 (1 / 1000) 1) = Some (2 ^ 30)" .
  moreover have "wrap_index (2 ^ 30) (2 ^ 30) (int (length (replicate (2 ^ 30) (0::real) @ [1]))) =
      - (2 ^ 30 - 1)"
    by (simp add: wrap_index_def c_rem_def int32_def)
  ultimately show ?thesis by (rule conjI)
qed

text \<open>
  C7 as amended, for extents up to \<open>2\<^sup>3\<^sup>0\<close>. Every iteration \<open>i\<close> that a call reaches
  (\<open>s\<close> is the state at its start) runs the step loop with its own \<^verbatim>\<open>argmax\<close> and
  \<^verbatim>\<open>step = gain * max * q\<close>. For every kernel offset \<open>n\<close> (or pair \<open>n1, n2\<close>), the residual
  that the iteration leaves holds at the wrapped index \<open>(n + argmax) mod dim\<close> the old value
  minus \<^verbatim>\<open>ker[n] * step\<close> when the iteration is kept (it falls through or returns \<open>i\<close>), and
  that difference plus \<^verbatim>\<open>ker[n] * step\<close> again when the iteration diverged and undid its
  step (it returns \<open>-i\<close>; in \<^verbatim>\<open>clean_2d_c\<close> it falls through with the risen score).
  \<^verbatim>\<open>argmax\<close> and the wrapped index are inside the array, the residual keeps its shape, the
  sum \<open>n + argmax\<close> stays below \<open>2\<^sup>3\<^sup>1\<close>, and the source's \<^verbatim>\<open>int\<close> expression
  \<^verbatim>\<open>(n + argmax) % dim\<close> is the wrapped index. For the complex kernels the product is
  \<open>cmul\<close>, in exact arithmetic the complex product. A 2-D array is rectangular: every row
  has \<^verbatim>\<open>DIM(res,1)\<close> elements.
\<close>

theorem step_subtracts_at_wrapped_index:
  "(length r1 \<le> 2 ^ 30 \<and> iter_state_1d_r rnd r1 k1 m1 gain tol i = Some s1 \<and> n < length r1 \<longrightarrow>
      (let argmax = st_argmax s1;
           step = rstep rnd gain (st_max s1) (kernel_q_1d_r rnd k1 (length r1));
           wrap_n = (n + argmax) mod length r1;
           new = rnd (st_res s1 ! wrap_n - rnd (k1 ! n * step))
       in length (st_res s1) = length r1 \<and> argmax < length r1 \<and> n + argmax < 2 ^ 31 \<and>
          wrap_n < length r1 \<and>
          wrap_index (int n) (int argmax) (int (length r1)) = int wrap_n \<and>
          (case clean_1d_r_iter rnd k1 (kernel_q_1d_r rnd k1 (length r1)) gain tol i s1 of
             Next s' \<Rightarrow> length (st_res s') = length r1 \<and> st_res s' ! wrap_n = new
           | Return rv s' \<Rightarrow> length (st_res s') = length r1 \<and>
               st_res s' ! wrap_n = (if rv < 0 then rnd (new + rnd (k1 ! n * step)) else new)))) \<and>
   (DIM_0 r2 \<le> 2 ^ 30 \<and> DIM_1 r2 \<le> 2 ^ 30 \<and> (\<forall>row \<in> set r2. length row = DIM_1 r2) \<and>
    iter_state_2d_r rnd r2 k2 m2 gain tol i = Some s2 \<and> n1 < DIM_0 r2 \<and> n2 < DIM_1 r2 \<longrightarrow>
      (let (argmax1, argmax2) = st_argmax s2;
           step = rstep rnd gain (st_max s2) (kernel_q_2d_r rnd k2 (DIM_0 r2) (DIM_1 r2));
           wrap_n1 = (n1 + argmax1) mod DIM_0 r2;
           wrap_n2 = (n2 + argmax2) mod DIM_1 r2;
           new = rnd (IND2 (st_res s2) wrap_n1 wrap_n2 - rnd (IND2 k2 n1 n2 * step))
       in map length (st_res s2) = map length r2 \<and>
          argmax1 < DIM_0 r2 \<and> argmax2 < DIM_1 r2 \<and>
          n1 + argmax1 < 2 ^ 31 \<and> n2 + argmax2 < 2 ^ 31 \<and>
          wrap_n1 < DIM_0 r2 \<and> wrap_n2 < DIM_1 r2 \<and>
          wrap_index (int n1) (int argmax1) (int (DIM_0 r2)) = int wrap_n1 \<and>
          wrap_index (int n2) (int argmax2) (int (DIM_1 r2)) = int wrap_n2 \<and>
          (case clean_2d_r_iter rnd k2 (kernel_q_2d_r rnd k2 (DIM_0 r2) (DIM_1 r2)) gain tol i s2 of
             Next s' \<Rightarrow> map length (st_res s') = map length r2 \<and>
               IND2 (st_res s') wrap_n1 wrap_n2 = new
           | Return rv s' \<Rightarrow> map length (st_res s') = map length r2 \<and>
               IND2 (st_res s') wrap_n1 wrap_n2 =
                 (if rv < 0 then rnd (new + rnd (IND2 k2 n1 n2 * step)) else new)))) \<and>
   (length r3 \<le> 2 ^ 30 \<and> iter_state_1d_c rnd r3 k3 m3 gain tol i = Some s3 \<and> n < length r3 \<longrightarrow>
      (let argmax = st_argmax s3;
           step = cstep rnd gain (st_max s3) (kernel_q_1d_c rnd k3 (length r3));
           wrap_n = (n + argmax) mod length r3;
           new = csub rnd (st_res s3 ! wrap_n) (cmul rnd (k3 ! n) step)
       in length (st_res s3) = length r3 \<and> argmax < length r3 \<and> n + argmax < 2 ^ 31 \<and>
          wrap_n < length r3 \<and>
          wrap_index (int n) (int argmax) (int (length r3)) = int wrap_n \<and>
          (case clean_1d_c_iter rnd k3 (kernel_q_1d_c rnd k3 (length r3)) gain tol i s3 of
             Next s' \<Rightarrow> length (st_res s') = length r3 \<and> st_res s' ! wrap_n = new
           | Return rv s' \<Rightarrow> length (st_res s') = length r3 \<and>
               st_res s' ! wrap_n =
                 (if rv < 0 then cadd rnd new (cmul rnd (k3 ! n) step) else new)))) \<and>
   (DIM_0 r4 \<le> 2 ^ 30 \<and> DIM_1 r4 \<le> 2 ^ 30 \<and> (\<forall>row \<in> set r4. length row = DIM_1 r4) \<and>
    iter_state_2d_c rnd r4 k4 m4 gain tol i = Some s4 \<and> n1 < DIM_0 r4 \<and> n2 < DIM_1 r4 \<longrightarrow>
      (let (argmax1, argmax2) = st_argmax s4;
           step = cstep rnd gain (st_max s4) (kernel_q_2d_c rnd k4 (DIM_0 r4) (DIM_1 r4));
           wrap_n1 = (n1 + argmax1) mod DIM_0 r4;
           wrap_n2 = (n2 + argmax2) mod DIM_1 r4;
           new = csub rnd (IND2 (st_res s4) wrap_n1 wrap_n2) (cmul rnd (IND2 k4 n1 n2) step)
       in map length (st_res s4) = map length r4 \<and>
          argmax1 < DIM_0 r4 \<and> argmax2 < DIM_1 r4 \<and>
          n1 + argmax1 < 2 ^ 31 \<and> n2 + argmax2 < 2 ^ 31 \<and>
          wrap_n1 < DIM_0 r4 \<and> wrap_n2 < DIM_1 r4 \<and>
          wrap_index (int n1) (int argmax1) (int (DIM_0 r4)) = int wrap_n1 \<and>
          wrap_index (int n2) (int argmax2) (int (DIM_1 r4)) = int wrap_n2 \<and>
          (case clean_2d_c_iter rnd k4 (kernel_q_2d_c rnd k4 (DIM_0 r4) (DIM_1 r4)) gain tol i s4 of
             Next s' \<Rightarrow> map length (st_res s') = map length r4 \<and>
               IND2 (st_res s') wrap_n1 wrap_n2 =
                 (if 0 < st_score s4 \<and> st_score s4 < st_score s'
                  then cadd rnd new (cmul rnd (IND2 k4 n1 n2) step) else new)
           | Return rv s' \<Rightarrow> map length (st_res s') = map length r4 \<and>
               IND2 (st_res s') wrap_n1 wrap_n2 = new))) \<and>
   (case csub (\<lambda>x. x) (xr, xi) (cmul (\<lambda>x. x) (kr, ki) (sr, si)) of (re, im) \<Rightarrow> Complex re im) =
     Complex xr xi - Complex kr ki * Complex sr si"
proof (intro conjI impI)
  assume "length r1 \<le> 2 ^ 30 \<and> iter_state_1d_r rnd r1 k1 m1 gain tol i = Some s1 \<and> n < length r1"
  then have h: "length r1 \<le> 2 ^ 30" "iter_state_1d_r rnd r1 k1 m1 gain tol i = Some s1"
    "n < length r1" by blast+
  show "let argmax = st_argmax s1;
           step = rstep rnd gain (st_max s1) (kernel_q_1d_r rnd k1 (length r1));
           wrap_n = (n + argmax) mod length r1;
           new = rnd (st_res s1 ! wrap_n - rnd (k1 ! n * step))
       in length (st_res s1) = length r1 \<and> argmax < length r1 \<and> n + argmax < 2 ^ 31 \<and>
          wrap_n < length r1 \<and>
          wrap_index (int n) (int argmax) (int (length r1)) = int wrap_n \<and>
          (case clean_1d_r_iter rnd k1 (kernel_q_1d_r rnd k1 (length r1)) gain tol i s1 of
             Next s' \<Rightarrow> length (st_res s') = length r1 \<and> st_res s' ! wrap_n = new
           | Return rv s' \<Rightarrow> length (st_res s') = length r1 \<and>
               st_res s' ! wrap_n = (if rv < 0 then rnd (new + rnd (k1 ! n * step)) else new))"
    by (rule step_1d_r [OF h])
next
  assume "DIM_0 r2 \<le> 2 ^ 30 \<and> DIM_1 r2 \<le> 2 ^ 30 \<and> (\<forall>row \<in> set r2. length row = DIM_1 r2) \<and>
    iter_state_2d_r rnd r2 k2 m2 gain tol i = Some s2 \<and> n1 < DIM_0 r2 \<and> n2 < DIM_1 r2"
  then have h: "DIM_0 r2 \<le> 2 ^ 30" "DIM_1 r2 \<le> 2 ^ 30" "\<forall>row \<in> set r2. length row = DIM_1 r2"
    "iter_state_2d_r rnd r2 k2 m2 gain tol i = Some s2" "n1 < DIM_0 r2" "n2 < DIM_1 r2" by blast+
  show "let (argmax1, argmax2) = st_argmax s2;
           step = rstep rnd gain (st_max s2) (kernel_q_2d_r rnd k2 (DIM_0 r2) (DIM_1 r2));
           wrap_n1 = (n1 + argmax1) mod DIM_0 r2;
           wrap_n2 = (n2 + argmax2) mod DIM_1 r2;
           new = rnd (IND2 (st_res s2) wrap_n1 wrap_n2 - rnd (IND2 k2 n1 n2 * step))
       in map length (st_res s2) = map length r2 \<and>
          argmax1 < DIM_0 r2 \<and> argmax2 < DIM_1 r2 \<and>
          n1 + argmax1 < 2 ^ 31 \<and> n2 + argmax2 < 2 ^ 31 \<and>
          wrap_n1 < DIM_0 r2 \<and> wrap_n2 < DIM_1 r2 \<and>
          wrap_index (int n1) (int argmax1) (int (DIM_0 r2)) = int wrap_n1 \<and>
          wrap_index (int n2) (int argmax2) (int (DIM_1 r2)) = int wrap_n2 \<and>
          (case clean_2d_r_iter rnd k2 (kernel_q_2d_r rnd k2 (DIM_0 r2) (DIM_1 r2)) gain tol i s2 of
             Next s' \<Rightarrow> map length (st_res s') = map length r2 \<and>
               IND2 (st_res s') wrap_n1 wrap_n2 = new
           | Return rv s' \<Rightarrow> map length (st_res s') = map length r2 \<and>
               IND2 (st_res s') wrap_n1 wrap_n2 =
                 (if rv < 0 then rnd (new + rnd (IND2 k2 n1 n2 * step)) else new))"
    by (rule step_2d_r [OF h])
next
  assume "length r3 \<le> 2 ^ 30 \<and> iter_state_1d_c rnd r3 k3 m3 gain tol i = Some s3 \<and> n < length r3"
  then have h: "length r3 \<le> 2 ^ 30" "iter_state_1d_c rnd r3 k3 m3 gain tol i = Some s3"
    "n < length r3" by blast+
  show "let argmax = st_argmax s3;
           step = cstep rnd gain (st_max s3) (kernel_q_1d_c rnd k3 (length r3));
           wrap_n = (n + argmax) mod length r3;
           new = csub rnd (st_res s3 ! wrap_n) (cmul rnd (k3 ! n) step)
       in length (st_res s3) = length r3 \<and> argmax < length r3 \<and> n + argmax < 2 ^ 31 \<and>
          wrap_n < length r3 \<and>
          wrap_index (int n) (int argmax) (int (length r3)) = int wrap_n \<and>
          (case clean_1d_c_iter rnd k3 (kernel_q_1d_c rnd k3 (length r3)) gain tol i s3 of
             Next s' \<Rightarrow> length (st_res s') = length r3 \<and> st_res s' ! wrap_n = new
           | Return rv s' \<Rightarrow> length (st_res s') = length r3 \<and>
               st_res s' ! wrap_n =
                 (if rv < 0 then cadd rnd new (cmul rnd (k3 ! n) step) else new))"
    by (rule step_1d_c [OF h])
next
  assume "DIM_0 r4 \<le> 2 ^ 30 \<and> DIM_1 r4 \<le> 2 ^ 30 \<and> (\<forall>row \<in> set r4. length row = DIM_1 r4) \<and>
    iter_state_2d_c rnd r4 k4 m4 gain tol i = Some s4 \<and> n1 < DIM_0 r4 \<and> n2 < DIM_1 r4"
  then have h: "DIM_0 r4 \<le> 2 ^ 30" "DIM_1 r4 \<le> 2 ^ 30" "\<forall>row \<in> set r4. length row = DIM_1 r4"
    "iter_state_2d_c rnd r4 k4 m4 gain tol i = Some s4" "n1 < DIM_0 r4" "n2 < DIM_1 r4" by blast+
  show "let (argmax1, argmax2) = st_argmax s4;
           step = cstep rnd gain (st_max s4) (kernel_q_2d_c rnd k4 (DIM_0 r4) (DIM_1 r4));
           wrap_n1 = (n1 + argmax1) mod DIM_0 r4;
           wrap_n2 = (n2 + argmax2) mod DIM_1 r4;
           new = csub rnd (IND2 (st_res s4) wrap_n1 wrap_n2) (cmul rnd (IND2 k4 n1 n2) step)
       in map length (st_res s4) = map length r4 \<and>
          argmax1 < DIM_0 r4 \<and> argmax2 < DIM_1 r4 \<and>
          n1 + argmax1 < 2 ^ 31 \<and> n2 + argmax2 < 2 ^ 31 \<and>
          wrap_n1 < DIM_0 r4 \<and> wrap_n2 < DIM_1 r4 \<and>
          wrap_index (int n1) (int argmax1) (int (DIM_0 r4)) = int wrap_n1 \<and>
          wrap_index (int n2) (int argmax2) (int (DIM_1 r4)) = int wrap_n2 \<and>
          (case clean_2d_c_iter rnd k4 (kernel_q_2d_c rnd k4 (DIM_0 r4) (DIM_1 r4)) gain tol i s4 of
             Next s' \<Rightarrow> map length (st_res s') = map length r4 \<and>
               IND2 (st_res s') wrap_n1 wrap_n2 =
                 (if 0 < st_score s4 \<and> st_score s4 < st_score s'
                  then cadd rnd new (cmul rnd (IND2 k4 n1 n2) step) else new)
           | Return rv s' \<Rightarrow> map length (st_res s') = map length r4 \<and>
               IND2 (st_res s') wrap_n1 wrap_n2 = new)"
    by (rule step_2d_c [OF h])
next
  show "(case csub (\<lambda>x. x) (xr, xi) (cmul (\<lambda>x. x) (kr, ki) (sr, si)) of (re, im) \<Rightarrow> Complex re im) =
     Complex xr xi - Complex kr ki * Complex sr si"
    by (rule cmul_exact)
qed

theorem step_subtracts_at_wrapped_index_witness:
  "length [1, 1 :: real] \<le> 2 ^ 30 \<and>
   iter_state_1d_r float64 [1, 1] [1, 0] [0, 0] 8 (1 / 1000) 1 =
     Some \<lparr>st_res = [1, 1], st_mdl = [0, 0], st_score = 1, st_firstscore = 1, st_max = 1,
           st_argmax = 0, st_nargmax = 0\<rparr> \<and>
   (0::nat) < length [1, 1 :: real] \<and>
   clean_1d_r_iter float64 [1, 0] (kernel_q_1d_r float64 [1, 0] (length [1, 1 :: real])) 8 (1 / 1000) 1
     \<lparr>st_res = [1, 1], st_mdl = [0, 0], st_score = 1, st_firstscore = 1, st_max = 1,
       st_argmax = 0, st_nargmax = 0\<rparr> =
     Return (- 1) \<lparr>st_res = [1, 1], st_mdl = [0, 0], st_score = 1, st_firstscore = 1,
       st_max = - 7, st_argmax = 0, st_nargmax = 0\<rparr> \<and>
   [1, 1 :: real] ! ((0 + 0) mod length [1, 1 :: real]) =
     float64 (float64 (1 - float64 (1 * 8)) + float64 (1 * 8)) \<and>
   DIM_0 [[0, 5], [0, 0::real]] \<le> 2 ^ 30 \<and> DIM_1 [[0, 5], [0, 0::real]] \<le> 2 ^ 30 \<and>
   map length [[0, 5], [0, 0::real]] =
     [DIM_1 [[0, 5], [0, 0::real]], DIM_1 [[0, 5], [0, 0::real]]] \<and>
   iter_state_2d_r (\<lambda>x. x) [[0, 5], [0, 0]] [[1, 1 / 2], [0, 0]] [[0, 0], [0, 0]] 1 (1 / 1000) 1 =
     Some \<lparr>st_res = [[0, 5], [0, 0]], st_mdl = [[0, 0], [0, 0]], st_score = 5 / 2,
           st_firstscore = 5 / 2, st_max = 5, st_argmax = (0, 1), st_nargmax = (0, 1)\<rparr> \<and>
   (0::nat) < DIM_0 [[0, 5], [0, 0::real]] \<and> (1::nat) < DIM_1 [[0, 5], [0, 0::real]] \<and>
   clean_2d_r_iter (\<lambda>x. x) [[1, 1 / 2], [0, 0]]
     (kernel_q_2d_r (\<lambda>x. x) [[1, 1 / 2], [0, 0]] (DIM_0 [[0, 5], [0, 0::real]])
        (DIM_1 [[0, 5], [0, 0::real]])) 1 (1 / 1000) 1
     \<lparr>st_res = [[0, 5], [0, 0]], st_mdl = [[0, 0], [0, 0]], st_score = 5 / 2,
       st_firstscore = 5 / 2, st_max = 5, st_argmax = (0, 1), st_nargmax = (0, 1)\<rparr> =
     Next \<lparr>st_res = [[- (5 / 2), 0], [0, 0]], st_mdl = [[0, 5], [0, 0]], st_score = 5 / 4,
       st_firstscore = 5 / 2, st_max = - (5 / 2), st_argmax = (0, 0), st_nargmax = (0, 0)\<rparr> \<and>
   IND2 [[- (5 / 2), 0], [0, 0::real]] ((0 + 0) mod DIM_0 [[0, 5], [0, 0::real]])
       ((1 + 1) mod DIM_1 [[0, 5], [0, 0::real]]) = 0 - 1 / 2 * 5 \<and>
   length [(0, 0), (0, 0), (3, 4), (0::real, 0::real)] \<le> 2 ^ 30 \<and>
   iter_state_1d_c (\<lambda>x. x) [(0, 0), (0, 0), (3, 4), (0, 0)] [(1, 0), (0, 1), (0, 0), (0, 0)]
       [(0, 0), (0, 0), (0, 0), (0, 0)] 1 (1 / 1000) 1 =
     Some \<lparr>st_res = [(0, 0), (0, 0), (3, 4), (0, 0)],
           st_mdl = [(0, 0), (0, 0), (0, 0), (0, 0)], st_score = 5 / 2,
           st_firstscore = 5 / 2, st_max = (3, 4), st_argmax = 2, st_nargmax = 2\<rparr> \<and>
   (1::nat) < length [(0, 0), (0, 0), (3, 4), (0::real, 0::real)] \<and>
   clean_1d_c_iter (\<lambda>x. x) [(1, 0), (0, 1), (0, 0), (0, 0)]
     (kernel_q_1d_c (\<lambda>x. x) [(1, 0), (0, 1), (0, 0), (0, 0)]
        (length [(0, 0), (0, 0), (3, 4), (0::real, 0::real)])) 1 (1 / 1000) 1
     \<lparr>st_res = [(0, 0), (0, 0), (3, 4), (0, 0)],
       st_mdl = [(0, 0), (0, 0), (0, 0), (0, 0)], st_score = 5 / 2,
       st_firstscore = 5 / 2, st_max = (3, 4), st_argmax = 2, st_nargmax = 2\<rparr> =
     Return 1 \<lparr>st_res = [(0, 0), (0, 0), (0, 0), (4, - 3)],
       st_mdl = [(0, 0), (0, 0), (3, 4), (0, 0)], st_score = 5 / 2,
       st_firstscore = 5 / 2, st_max = (4, - 3), st_argmax = 2, st_nargmax = 3\<rparr> \<and>
   [(0, 0), (0, 0), (0, 0), (4, - 3 :: real)] !
       ((1 + 2) mod length [(0, 0), (0, 0), (3, 4), (0::real, 0::real)]) =
     csub (\<lambda>x. x) (0, 0) (cmul (\<lambda>x. x) (0, 1) (3, 4)) \<and>
   DIM_0 [[(3, - 4)], [(3::real, 4::real)]] \<le> 2 ^ 30 \<and>
   DIM_1 [[(3, - 4)], [(3::real, 4::real)]] \<le> 2 ^ 30 \<and>
   map length [[(3, - 4)], [(3::real, 4::real)]] =
     [DIM_1 [[(3, - 4)], [(3::real, 4::real)]], DIM_1 [[(3, - 4)], [(3::real, 4::real)]]] \<and>
   iter_state_2d_c float64 [[(3, - 4)], [(3, 4)]] [[(1, 0)], [(0, - 1)]] [[(0, 0)], [(0, 0)]]
       1 (1 / 1000) 1 =
     Some \<lparr>st_res = [[(3, - 4)], [(3, 4)]], st_mdl = [[(0, 0)], [(0, 0)]], st_score = 5,
           st_firstscore = 5, st_max = (3, - 4), st_argmax = (0, 0), st_nargmax = (0, 0)\<rparr> \<and>
   (1::nat) < DIM_0 [[(3, - 4)], [(3::real, 4::real)]] \<and>
   (0::nat) < DIM_1 [[(3, - 4)], [(3::real, 4::real)]] \<and>
   clean_2d_c_iter float64 [[(1, 0)], [(0, - 1)]]
     (kernel_q_2d_c float64 [[(1, 0)], [(0, - 1)]] (DIM_0 [[(3, - 4)], [(3::real, 4::real)]])
        (DIM_1 [[(3, - 4)], [(3::real, 4::real)]])) 1 (1 / 1000) 1
     \<lparr>st_res = [[(3, - 4)], [(3, 4)]], st_mdl = [[(0, 0)], [(0, 0)]], st_score = 5,
       st_firstscore = 5, st_max = (3, - 4), st_argmax = (0, 0), st_nargmax = (0, 0)\<rparr> =
     Next \<lparr>st_res = [[(3, - 4)], [(3, 4)]], st_mdl = [[(0, 0)], [(0, 0)]], st_score = 7,
       st_firstscore = 5, st_max = (7, 7), st_argmax = (1, 0), st_nargmax = (1, 0)\<rparr> \<and>
   IND2 [[(3, - 4)], [(3::real, 4::real)]] ((1 + 0) mod DIM_0 [[(3, - 4)], [(3::real, 4::real)]])
       ((0 + 0) mod DIM_1 [[(3, - 4)], [(3::real, 4::real)]]) =
     cadd float64 (csub float64 (3, 4) (cmul float64 (0, - 1) (3, - 4)))
       (cmul float64 (0, - 1) (3, - 4))"
proof -
  let ?S1 = "\<lparr>st_res = [1, 1 :: real], st_mdl = [0, 0 :: real], st_score = 1, st_firstscore = 1,
    st_max = 1 :: real, st_argmax = 0 :: nat, st_nargmax = 0 :: nat\<rparr>"
  let ?S2 = "\<lparr>st_res = [[0, 5], [0, 0::real]], st_mdl = [[0, 0], [0, 0::real]], st_score = 5 / 2,
    st_firstscore = 5 / 2, st_max = 5 :: real, st_argmax = (0::nat, 1::nat),
    st_nargmax = (0::nat, 1::nat)\<rparr>"
  let ?S3 = "\<lparr>st_res = [(0, 0), (0, 0), (3, 4), (0::real, 0::real)],
    st_mdl = [(0, 0), (0, 0), (0, 0), (0::real, 0::real)], st_score = 5 / 2,
    st_firstscore = 5 / 2, st_max = (3::real, 4::real), st_argmax = 2 :: nat,
    st_nargmax = 2 :: nat\<rparr>"
  let ?S4 = "\<lparr>st_res = [[(3, - 4)], [(3::real, 4::real)]], st_mdl = [[(0, 0)], [(0::real, 0::real)]],
    st_score = 5, st_firstscore = 5, st_max = (3::real, - 4 :: real),
    st_argmax = (0::nat, 0::nat), st_nargmax = (0::nat, 0::nat)\<rparr>"
  note f = step_subtracts_at_wrapped_index [where rnd = float64 and gain = 8 and tol = "1 / 1000" and i = 1
      and n = 0 and ?r1.0 = "[1, 1]" and ?k1.0 = "[1, 0]" and ?m1.0 = "[0, 0]" and ?s1.0 = ?S1,
      THEN conjunct1]
  note g = step_subtracts_at_wrapped_index [where rnd = "\<lambda>x. x" and gain = 1 and tol = "1 / 1000" and i = 1
      and n = 1 and ?n1.0 = 0 and ?n2.0 = 1
      and ?r2.0 = "[[0, 5], [0, 0]]" and ?k2.0 = "[[1, 1 / 2], [0, 0]]"
      and ?m2.0 = "[[0, 0], [0, 0]]" and ?s2.0 = ?S2
      and ?r3.0 = "[(0, 0), (0, 0), (3, 4), (0, 0)]" and ?k3.0 = "[(1, 0), (0, 1), (0, 0), (0, 0)]"
      and ?m3.0 = "[(0, 0), (0, 0), (0, 0), (0, 0)]" and ?s3.0 = ?S3]
  note h = step_subtracts_at_wrapped_index [where rnd = float64 and gain = 1 and tol = "1 / 1000" and i = 1
      and ?n1.0 = 1 and ?n2.0 = 0
      and ?r4.0 = "[[(3, - 4)], [(3, 4)]]" and ?k4.0 = "[[(1, 0)], [(0, - 1)]]"
      and ?m4.0 = "[[(0, 0)], [(0, 0)]]" and ?s4.0 = ?S4]
  have a1: "length [1, 1 :: real] \<le> 2 ^ 30" "(0::nat) < length [1, 1 :: real]" by simp_all
  have i1: "clean_1d_r_iter float64 [1, 0] (kernel_q_1d_r float64 [1, 0] (length [1, 1 :: real]))
      8 (1 / 1000) 1 ?S1 =
     Return (- 1) \<lparr>st_res = [1, 1], st_mdl = [0, 0], st_score = 1, st_firstscore = 1,
       st_max = - 7, st_argmax = 0, st_nargmax = 0\<rparr>"
    unfolding rt_q using rt_iter1 [of "1 / 1000" 1] by simp
  have c1: "[1, 1 :: real] ! ((0 + 0) mod length [1, 1 :: real]) =
     float64 (float64 (1 - float64 (1 * 8)) + float64 (1 * 8))"
    using f a1 rt_state1 [of "1 / 1000"] unfolding Let_def rt_q
    by (simp add: rt_iter1 rstep_def float64_ints float64_more_ints)
  have a2: "DIM_0 [[0, 5], [0, 0::real]] \<le> 2 ^ 30" "DIM_1 [[0, 5], [0, 0::real]] \<le> 2 ^ 30"
    "(0::nat) < DIM_0 [[0, 5], [0, 0::real]]" "(1::nat) < DIM_1 [[0, 5], [0, 0::real]]"
    by (simp_all add: DIM_0_def DIM_1_def)
  have sh2: "map length [[0, 5], [0, 0::real]] =
     [DIM_1 [[0, 5], [0, 0::real]], DIM_1 [[0, 5], [0, 0::real]]]"
    by (simp add: DIM_1_def)
  have rect2: "\<forall>row \<in> set [[0, 5], [0, 0::real]]. length row = DIM_1 [[0, 5], [0, 0::real]]"
    by (simp add: DIM_1_def)
  have i2: "clean_2d_r_iter (\<lambda>x. x) [[1, 1 / 2], [0, 0]]
     (kernel_q_2d_r (\<lambda>x. x) [[1, 1 / 2], [0, 0]] (DIM_0 [[0, 5], [0, 0::real]])
        (DIM_1 [[0, 5], [0, 0::real]])) 1 (1 / 1000) 1 ?S2 =
     Next \<lparr>st_res = [[- (5 / 2), 0], [0, 0]], st_mdl = [[0, 5], [0, 0]], st_score = 5 / 4,
       st_firstscore = 5 / 2, st_max = - (5 / 2), st_argmax = (0, 0), st_nargmax = (0, 0)\<rparr>"
    unfolding ws_2d_r_q by (rule ws_2d_r_iter1)
  have c2: "IND2 [[- (5 / 2), 0], [0, 0::real]] ((0 + 0) mod DIM_0 [[0, 5], [0, 0::real]])
       ((1 + 1) mod DIM_1 [[0, 5], [0, 0::real]]) = 0 - 1 / 2 * 5"
    using g [THEN conjunct2, THEN conjunct1] a2 rect2 ws_2d_r_state1 [of "1 / 1000"]
    unfolding Let_def ws_2d_r_q
    by (simp add: ws_2d_r_iter1 rstep_def IND2_def DIM_0_def DIM_1_def)
  have a3: "length [(0, 0), (0, 0), (3, 4), (0::real, 0::real)] \<le> 2 ^ 30"
    "(1::nat) < length [(0, 0), (0, 0), (3, 4), (0::real, 0::real)]" by simp_all
  have i3: "clean_1d_c_iter (\<lambda>x. x) [(1, 0), (0, 1), (0, 0), (0, 0)]
     (kernel_q_1d_c (\<lambda>x. x) [(1, 0), (0, 1), (0, 0), (0, 0)]
        (length [(0, 0), (0, 0), (3, 4), (0::real, 0::real)])) 1 (1 / 1000) 1 ?S3 =
     Return 1 \<lparr>st_res = [(0, 0), (0, 0), (0, 0), (4, - 3)],
       st_mdl = [(0, 0), (0, 0), (3, 4), (0, 0)], st_score = 5 / 2,
       st_firstscore = 5 / 2, st_max = (4, - 3), st_argmax = 2, st_nargmax = 3\<rparr>"
    unfolding ws_1d_c_q using ws_1d_c_iter1 [of 1] by simp
  have c3: "[(0, 0), (0, 0), (0, 0), (4, - 3 :: real)] !
       ((1 + 2) mod length [(0, 0), (0, 0), (3, 4), (0::real, 0::real)]) =
     csub (\<lambda>x. x) (0, 0) (cmul (\<lambda>x. x) (0, 1) (3, 4))"
    using g [THEN conjunct2, THEN conjunct2, THEN conjunct1] a3 ws_1d_c_state1 [of "1 / 1000"]
    unfolding Let_def ws_1d_c_q
    by (simp add: ws_1d_c_iter1 cstep_def cmul_def csub_def)
  have a4: "DIM_0 [[(3, - 4)], [(3::real, 4::real)]] \<le> 2 ^ 30"
    "DIM_1 [[(3, - 4)], [(3::real, 4::real)]] \<le> 2 ^ 30"
    "(1::nat) < DIM_0 [[(3, - 4)], [(3::real, 4::real)]]"
    "(0::nat) < DIM_1 [[(3, - 4)], [(3::real, 4::real)]]"
    by (simp_all add: DIM_0_def DIM_1_def)
  have sh4: "map length [[(3, - 4)], [(3::real, 4::real)]] =
     [DIM_1 [[(3, - 4)], [(3::real, 4::real)]], DIM_1 [[(3, - 4)], [(3::real, 4::real)]]]"
    by (simp add: DIM_1_def)
  have rect4: "\<forall>row \<in> set [[(3, - 4)], [(3::real, 4::real)]].
      length row = DIM_1 [[(3, - 4)], [(3::real, 4::real)]]"
    by (simp add: DIM_1_def)
  have i4: "clean_2d_c_iter float64 [[(1, 0)], [(0, - 1)]]
     (kernel_q_2d_c float64 [[(1, 0)], [(0, - 1)]] (DIM_0 [[(3, - 4)], [(3::real, 4::real)]])
        (DIM_1 [[(3, - 4)], [(3::real, 4::real)]])) 1 (1 / 1000) 1 ?S4 =
     Next \<lparr>st_res = [[(3, - 4)], [(3, 4)]], st_mdl = [[(0, 0)], [(0, 0)]], st_score = 7,
       st_firstscore = 5, st_max = (7, 7), st_argmax = (1, 0), st_nargmax = (1, 0)\<rparr>"
    unfolding div_q by (rule div_iter1)
  have c4: "IND2 [[(3, - 4)], [(3::real, 4::real)]]
       ((1 + 0) mod DIM_0 [[(3, - 4)], [(3::real, 4::real)]])
       ((0 + 0) mod DIM_1 [[(3, - 4)], [(3::real, 4::real)]]) =
     cadd float64 (csub float64 (3, 4) (cmul float64 (0, - 1) (3, - 4)))
       (cmul float64 (0, - 1) (3, - 4))"
    using h [THEN conjunct2, THEN conjunct2, THEN conjunct2, THEN conjunct1] a4 rect4
      div_state1 [of "1 / 1000"]
    unfolding Let_def div_q
    by (simp add: div_iter1 cstep_def cmul_def cadd_def csub_def IND2_def DIM_0_def DIM_1_def
        float64_ints)
  from a1 rt_state1 [of "1 / 1000"] i1 c1 a2 sh2 ws_2d_r_state1 [of "1 / 1000"] i2 c2
    a3 ws_1d_c_state1 [of "1 / 1000"] i3 c3 a4 sh4 div_state1 [of "1 / 1000"] i4 c4
  show ?thesis by (simp only: simp_thms)
qed





text \<open>
  C6. When some kernel element has a positive squared magnitude (as rounded by the
  element type), the one scan of the kernel ends at an element \<open>p\<close> of maximal squared
  magnitude, and the normalization constant is computed from that element itself: for
  the real kernels \<open>q = 1 / ker[p]\<close>, the raw value and not its magnitude; for the
  complex kernels \<open>q = (re / mq, -im / mq)\<close> with \<open>mq\<close> the squared modulus of
  \<open>ker[p]\<close>, which in exact arithmetic is \<open>conjugate(ker[p]) / |ker[p]|\<^sup>2\<close>. (An
  all-zero kernel makes the source divide by zero and is outside the model.)
\<close>

theorem kernel_q_is_reciprocal_of_peak:
  "((\<exists>n<d. 0 < rnd (k1 ! n * k1 ! n)) \<longrightarrow>
      (\<exists>p<d. (\<forall>n<d. rnd (k1 ! n * k1 ! n) \<le> rnd (k1 ! p * k1 ! p)) \<and>
             kernel_q_1d_r rnd k1 d = rnd (1 / k1 ! p))) \<and>
   ((\<exists>n1<d1. \<exists>n2<d2. 0 < rnd (IND2 k2 n1 n2 * IND2 k2 n1 n2)) \<longrightarrow>
      (\<exists>p1<d1. \<exists>p2<d2.
         (\<forall>n1<d1. \<forall>n2<d2. rnd (IND2 k2 n1 n2 * IND2 k2 n1 n2) \<le>
            rnd (IND2 k2 p1 p2 * IND2 k2 p1 p2)) \<and>
         kernel_q_2d_r rnd k2 d1 d2 = rnd (1 / IND2 k2 p1 p2))) \<and>
   ((\<exists>n<d. 0 < sqmod rnd (k3 ! n)) \<longrightarrow>
      (\<exists>p<d. (\<forall>n<d. sqmod rnd (k3 ! n) \<le> sqmod rnd (k3 ! p)) \<and>
             kernel_q_1d_c rnd k3 d =
               (rnd (fst (k3 ! p) / sqmod rnd (k3 ! p)),
                rnd (- snd (k3 ! p) / sqmod rnd (k3 ! p))))) \<and>
   ((\<exists>n1<d1. \<exists>n2<d2. 0 < sqmod rnd (IND2 k4 n1 n2)) \<longrightarrow>
      (\<exists>p1<d1. \<exists>p2<d2.
         (\<forall>n1<d1. \<forall>n2<d2. sqmod rnd (IND2 k4 n1 n2) \<le> sqmod rnd (IND2 k4 p1 p2)) \<and>
         kernel_q_2d_c rnd k4 d1 d2 =
           (rnd (fst (IND2 k4 p1 p2) / sqmod rnd (IND2 k4 p1 p2)),
            rnd (- snd (IND2 k4 p1 p2) / sqmod rnd (IND2 k4 p1 p2))))) \<and>
   (0 < sqmod (\<lambda>x. x) (zr, zi) \<longrightarrow>
      Complex (zr / sqmod (\<lambda>x. x) (zr, zi)) (- zi / sqmod (\<lambda>x. x) (zr, zi)) =
      cnj (Complex zr zi) / (cmod (Complex zr zi))\<^sup>2)"
  using kernel_q_1d_r_peak [of d rnd k1] kernel_q_2d_r_peak [of d1 d2 rnd k2]
    kernel_q_1d_c_peak [of d rnd k3] kernel_q_2d_c_peak [of d1 d2 rnd k4]
    conj_over_sqmod [of zr zi]
  by blast

theorem kernel_q_is_reciprocal_of_peak_witness:
  "(1::nat) < 3 \<and> 0 < [1, - 2, 0] ! 1 * [1, - 2, 0::real] ! 1 \<and>
   kernel_q_1d_r (\<lambda>x. x) [1, - 2, 0] 3 = - (1 / 2) \<and>
   (0::nat) < 2 \<and> (1::nat) < 3 \<and>
   0 < IND2 [[1, - 2, 0], [0, 1, 1]] 0 1 * IND2 [[1, - 2, 0], [0, 1, 1::real]] 0 1 \<and>
   kernel_q_2d_r (\<lambda>x. x) [[1, - 2, 0], [0, 1, 1]] 2 3 = - (1 / 2) \<and>
   0 < sqmod (\<lambda>x. x) ([(1, 0), (3, - 4), (0, 0)] ! 1) \<and>
   kernel_q_1d_c (\<lambda>x. x) [(1, 0), (3, - 4), (0, 0)] 3 = (3 / 25, 4 / 25) \<and>
   0 < sqmod (\<lambda>x. x) (IND2 [[(1, 0), (3, - 4), (0, 0)], [(0, 0), (0, 1), (1, 0)]] 0 1) \<and>
   kernel_q_2d_c (\<lambda>x. x) [[(1, 0), (3, - 4), (0, 0)], [(0, 0), (0, 1), (1, 0)]] 2 3 =
     (3 / 25, 4 / 25) \<and>
   0 < sqmod (\<lambda>x. x) (3, - 4) \<and>
   Complex (3 / sqmod (\<lambda>x. x) (3, - 4)) (- (- 4) / sqmod (\<lambda>x. x) (3, - 4)) =
     cnj (Complex 3 (- 4)) / (cmod (Complex 3 (- 4)))\<^sup>2"
proof -
  note t = kernel_q_is_reciprocal_of_peak [where rnd = "\<lambda>x. x" and d = 3 and ?d1.0 = 2
      and ?d2.0 = 3 and ?k1.0 = "[1, - 2, 0]" and ?k2.0 = "[[1, - 2, 0], [0, 1, 1]]"
      and ?k3.0 = "[(1, 0), (3, - 4), (0, 0)]"
      and ?k4.0 = "[[(1, 0), (3, - 4), (0, 0)], [(0, 0), (0, 1), (1, 0)]]"
      and zr = 3 and zi = "- 4"]
  have h: "0 < sqmod (\<lambda>x. x) (3, - 4)" by (simp add: sqmod_def)
  from t h have c: "Complex (3 / sqmod (\<lambda>x. x) (3, - 4)) (- (- 4) / sqmod (\<lambda>x. x) (3, - 4)) =
     cnj (Complex 3 (- 4)) / (cmod (Complex 3 (- 4)))\<^sup>2"
    by blast
  have e: "(1::nat) < 3" "0 < [1, - 2, 0] ! 1 * [1, - 2, 0::real] ! 1"
    "kernel_q_1d_r (\<lambda>x. x) [1, - 2, 0] 3 = - (1 / 2)"
    "(0::nat) < 2"
    "0 < IND2 [[1, - 2, 0], [0, 1, 1]] 0 1 * IND2 [[1, - 2, 0], [0, 1, 1::real]] 0 1"
    "kernel_q_2d_r (\<lambda>x. x) [[1, - 2, 0], [0, 1, 1]] 2 3 = - (1 / 2)"
    "0 < sqmod (\<lambda>x. x) ([(1, 0), (3, - 4), (0, 0)] ! 1)"
    "kernel_q_1d_c (\<lambda>x. x) [(1, 0), (3, - 4), (0, 0)] 3 = (3 / 25, 4 / 25)"
    "0 < sqmod (\<lambda>x. x) (IND2 [[(1, 0), (3, - 4), (0, 0)], [(0, 0), (0, 1), (1, 0)]] 0 1)"
    "kernel_q_2d_c (\<lambda>x. x) [[(1, 0), (3, - 4), (0, 0)], [(0, 0), (0, 1), (1, 0)]] 2 3 =
     (3 / 25, 4 / 25)"
    by (simp_all add: kernel_q_1d_r_def ker_peak_1d_r_def kernel_q_2d_r_def ker_peak_2d_r_def
        kernel_q_1d_c_def ker_peak_1d_c_def kernel_q_2d_c_def ker_peak_2d_c_def sqmod_def
        IND2_def upt_rec)
  from e h c show ?thesis by (simp only: simp_thms)
qed

end
